theory Spec2Isabelle
  imports Complex_Main
begin

section \<open>Numbers\<close>

text \<open>
  Every quantity of the library is a JavaScript number. The finite values are modelled
  by the reals: the rounding and the overflow of the binary64 format are not modelled,
  and there is one zero (where IEEE 754 looks at the sign of a zero, in \<open>x / 0\<close>, the
  model takes the positive one). NaN and the two infinities are values of their own and
  follow the IEEE 754 rules, so that a division by zero, a comparison with NaN and a loop
  bounded by Infinity behave in the model as they do in the program.
\<close>

datatype number = Fin real | PInf | NInf | NaN

fun nneg :: "number \<Rightarrow> number" where
  "nneg (Fin x) = Fin (- x)"
| "nneg PInf = NInf"
| "nneg NInf = PInf"
| "nneg NaN = NaN"

fun nadd :: "number \<Rightarrow> number \<Rightarrow> number" where
  "nadd (Fin x) (Fin y) = Fin (x + y)"
| "nadd NaN _ = NaN"
| "nadd _ NaN = NaN"
| "nadd PInf NInf = NaN"
| "nadd NInf PInf = NaN"
| "nadd PInf _ = PInf"
| "nadd _ PInf = PInf"
| "nadd NInf _ = NInf"
| "nadd _ NInf = NInf"

definition nsub :: "number \<Rightarrow> number \<Rightarrow> number" where
  "nsub a b = nadd a (nneg b)"

fun nmul :: "number \<Rightarrow> number \<Rightarrow> number" where
  "nmul (Fin x) (Fin y) = Fin (x * y)"
| "nmul NaN _ = NaN"
| "nmul _ NaN = NaN"
| "nmul (Fin x) PInf = (if x = 0 then NaN else if 0 < x then PInf else NInf)"
| "nmul (Fin x) NInf = (if x = 0 then NaN else if 0 < x then NInf else PInf)"
| "nmul PInf (Fin y) = (if y = 0 then NaN else if 0 < y then PInf else NInf)"
| "nmul NInf (Fin y) = (if y = 0 then NaN else if 0 < y then NInf else PInf)"
| "nmul PInf PInf = PInf"
| "nmul NInf NInf = PInf"
| "nmul PInf NInf = NInf"
| "nmul NInf PInf = NInf"

fun ndiv :: "number \<Rightarrow> number \<Rightarrow> number" where
  "ndiv (Fin x) (Fin y) =
     (if y \<noteq> 0 then Fin (x / y)
      else if x = 0 then NaN else if 0 < x then PInf else NInf)"
| "ndiv NaN _ = NaN"
| "ndiv _ NaN = NaN"
| "ndiv (Fin x) PInf = Fin 0"
| "ndiv (Fin x) NInf = Fin 0"
| "ndiv PInf (Fin y) = (if 0 \<le> y then PInf else NInf)"
| "ndiv NInf (Fin y) = (if 0 \<le> y then NInf else PInf)"
| "ndiv PInf PInf = NaN"
| "ndiv PInf NInf = NaN"
| "ndiv NInf PInf = NaN"
| "ndiv NInf NInf = NaN"

text \<open>The comparisons \<open><\<close>, \<open><=\<close>, \<open>>\<close>, \<open>>=\<close> and \<open>===\<close>: all false on NaN.\<close>

fun nlt :: "number \<Rightarrow> number \<Rightarrow> bool" where
  "nlt (Fin x) (Fin y) = (x < y)"
| "nlt NaN _ = False"
| "nlt _ NaN = False"
| "nlt _ NInf = False"
| "nlt NInf _ = True"
| "nlt PInf _ = False"
| "nlt _ PInf = True"

fun nle :: "number \<Rightarrow> number \<Rightarrow> bool" where
  "nle (Fin x) (Fin y) = (x \<le> y)"
| "nle NaN _ = False"
| "nle _ NaN = False"
| "nle NInf _ = True"
| "nle _ PInf = True"
| "nle PInf _ = False"
| "nle _ NInf = False"

definition ngt :: "number \<Rightarrow> number \<Rightarrow> bool" where
  "ngt a b = nlt b a"

definition nge :: "number \<Rightarrow> number \<Rightarrow> bool" where
  "nge a b = nle b a"

fun neq :: "number \<Rightarrow> number \<Rightarrow> bool" where
  "neq (Fin x) (Fin y) = (x = y)"
| "neq PInf PInf = True"
| "neq NInf NInf = True"
| "neq _ _ = False"

text \<open>\<open>Math.abs\<close>, \<open>Math.ceil\<close>, \<open>Math.round\<close>, \<open>Math.max\<close> and \<open>Math.pow\<close>.\<close>

fun nabs :: "number \<Rightarrow> number" where
  "nabs (Fin x) = Fin \<bar>x\<bar>"
| "nabs PInf = PInf"
| "nabs NInf = PInf"
| "nabs NaN = NaN"

fun nceil :: "number \<Rightarrow> number" where
  "nceil (Fin x) = Fin (of_int \<lceil>x\<rceil>)"
| "nceil PInf = PInf"
| "nceil NInf = NInf"
| "nceil NaN = NaN"

fun nround :: "number \<Rightarrow> number" where
  "nround (Fin x) = Fin (of_int \<lfloor>x + 1 / 2\<rfloor>)"
| "nround PInf = PInf"
| "nround NInf = NInf"
| "nround NaN = NaN"

fun nmax :: "number \<Rightarrow> number \<Rightarrow> number" where
  "nmax NaN _ = NaN"
| "nmax _ NaN = NaN"
| "nmax a b = (if nlt a b then b else a)"

definition is_int :: "real \<Rightarrow> bool" where
  "is_int e = (e = of_int \<lfloor>e\<rfloor>)"

definition is_odd_int :: "real \<Rightarrow> bool" where
  "is_odd_int e = (is_int e \<and> odd \<lfloor>e\<rfloor>)"

text \<open>
  \<open>Math.pow base exponent\<close>, by the case list of the language standard. A positive
  finite base is raised by \<open>powr\<close>; a negative one has a power only at an integer.
\<close>

fun npow :: "number \<Rightarrow> number \<Rightarrow> number" where
  "npow _ NaN = NaN"
| "npow b (Fin e) =
     (if e = 0 then Fin 1
      else case b of
        NaN \<Rightarrow> NaN
      | PInf \<Rightarrow> (if 0 < e then PInf else Fin 0)
      | NInf \<Rightarrow> (if 0 < e then (if is_odd_int e then NInf else PInf) else Fin 0)
      | Fin x \<Rightarrow>
          (if x = 0 then (if 0 < e then Fin 0 else PInf)
           else if 0 < x then Fin (x powr e)
           else if is_int e then Fin (x powi \<lfloor>e\<rfloor>)
           else NaN))"
| "npow b PInf =
     (case b of
        NaN \<Rightarrow> NaN
      | PInf \<Rightarrow> PInf
      | NInf \<Rightarrow> PInf
      | Fin x \<Rightarrow> (if 1 < \<bar>x\<bar> then PInf else if \<bar>x\<bar> = 1 then NaN else Fin 0))"
| "npow b NInf =
     (case b of
        NaN \<Rightarrow> NaN
      | PInf \<Rightarrow> Fin 0
      | NInf \<Rightarrow> Fin 0
      | Fin x \<Rightarrow> (if 1 < \<bar>x\<bar> then Fin 0 else if \<bar>x\<bar> = 1 then NaN else PInf))"

section \<open>Depth and Time\<close>

text \<open>
  \<open>Depth\<close> wraps one number, the metres, and \<open>Time\<close> one number, the seconds; both
  are modelled by that number. No method of the model calls their mutators
  (\<open>addAssign\<close>), so they are values.
\<close>

type_synonym Depth = number
type_synonym Time = number

definition Depth_zero :: Depth where
  "Depth_zero = Fin 0"

definition Time_zero :: Time where
  "Time_zero = Fin 0"

definition Time_fromSeconds :: "number \<Rightarrow> Time" where
  "Time_fromSeconds val = val"

definition Time_fromMinutes :: "number \<Rightarrow> Time" where
  "Time_fromMinutes val = nmul val (Fin 60)"

definition asSeconds :: "Time \<Rightarrow> number" where
  "asSeconds t = t"

definition asMinutes :: "Time \<Rightarrow> number" where
  "asMinutes t = ndiv t (Fin 60)"

section \<open>Gas\<close>

text \<open>What a method throws.\<close>

datatype error =
    ConfigError string string
  | DepthNegative
  | DepthExceedsMaximum
  | InvalidGas
  | EmptyGasList
  | CurrentGasNotInList
  | TypeError

record Gas =
  o2Pp :: number
  n2Pp :: number
  hePp :: number

record PartialPressures =
  pp_o2 :: number
  pp_n2 :: number
  pp_he :: number

definition ALVEOLI_WATER_VAPOR_PRESSURE :: number where
  "ALVEOLI_WATER_VAPOR_PRESSURE = Fin 0.0627"

definition Gas_new :: "number \<Rightarrow> number \<Rightarrow> error + Gas" where
  "Gas_new o2 he =
     (if nlt o2 (Fin 0) \<or> ngt o2 (Fin 1) then Inl InvalidGas
      else if nlt he (Fin 0) \<or> ngt he (Fin 1) then Inl InvalidGas
      else if ngt (nadd o2 he) (Fin 1) then Inl InvalidGas
      else Inr \<lparr>o2Pp = o2,
                n2Pp = ndiv (nround (nmul (nsub (Fin 1) (nadd o2 he)) (Fin 10000))) (Fin 10000),
                hePp = he\<rparr>)"

definition Gas_air :: Gas where
  "Gas_air = \<lparr>o2Pp = Fin 0.21, n2Pp = Fin 0.79, hePp = Fin 0\<rparr>"

definition gasPressuresCompound :: "Gas \<Rightarrow> number \<Rightarrow> PartialPressures" where
  "gasPressuresCompound g gasPressure =
     \<lparr>pp_o2 = nmul (o2Pp g) gasPressure,
      pp_n2 = nmul (n2Pp g) gasPressure,
      pp_he = nmul (hePp g) gasPressure\<rparr>"

definition partialPressures :: "Gas \<Rightarrow> Depth \<Rightarrow> number \<Rightarrow> PartialPressures" where
  "partialPressures g depth surfacePressure =
     gasPressuresCompound g (nadd (ndiv surfacePressure (Fin 1000)) (ndiv depth (Fin 10)))"

definition inspiredPartialPressures :: "Gas \<Rightarrow> Depth \<Rightarrow> number \<Rightarrow> PartialPressures" where
  "inspiredPartialPressures g depth surfacePressure =
     gasPressuresCompound g
       (nsub (nadd (ndiv surfacePressure (Fin 1000)) (ndiv depth (Fin 10)))
             ALVEOLI_WATER_VAPOR_PRESSURE)"

definition maxOperatingDepth :: "Gas \<Rightarrow> number \<Rightarrow> Depth" where
  "maxOperatingDepth g ppO2Limit = nmul (Fin 10) (nsub (ndiv ppO2Limit (o2Pp g)) (Fin 1))"

definition Gas_equals :: "Gas \<Rightarrow> Gas \<Rightarrow> bool" where
  "Gas_equals g other =
     (neq (o2Pp g) (o2Pp other) \<and> neq (n2Pp g) (n2Pp other) \<and> neq (hePp g) (hePp other))"

section \<open>Configuration\<close>

datatype CeilingType = Actual | Adaptive

datatype NDLType = NDL_Actual | NDL_ByCeiling

record BuhlmannConfig =
  gfLow :: number
  gfHigh :: number
  surfacePressureValue :: number
  decoAscentRateValue :: number
  ceilingTypeValue :: CeilingType
  roundCeilingValue :: bool
  ndlTypeValue :: NDLType

definition BuhlmannConfig_default :: BuhlmannConfig where
  "BuhlmannConfig_default =
     \<lparr>gfLow = Fin 100, gfHigh = Fin 100, surfacePressureValue = Fin 1013,
      decoAscentRateValue = Fin 10, ceilingTypeValue = Actual,
      roundCeilingValue = False, ndlTypeValue = NDL_Actual\<rparr>"

definition validate :: "BuhlmannConfig \<Rightarrow> error option" where
  "validate cfg =
     (if nlt (gfLow cfg) (Fin 1) \<or> ngt (gfLow cfg) (Fin 100)
        then Some (ConfigError ''gfLow'' ''GF Low must be between 1 and 100'')
      else if nlt (gfHigh cfg) (Fin 1) \<or> ngt (gfHigh cfg) (Fin 100)
        then Some (ConfigError ''gfHigh'' ''GF High must be between 1 and 100'')
      else if ngt (gfLow cfg) (gfHigh cfg)
        then Some (ConfigError ''gradientFactors''
                     ''GF Low must be less than or equal to GF High'')
      else if nlt (surfacePressureValue cfg) (Fin 500) \<or> ngt (surfacePressureValue cfg) (Fin 1200)
        then Some (ConfigError ''surfacePressure''
                     ''Surface pressure must be between 500 and 1200 mbar'')
      else if nle (decoAscentRateValue cfg) (Fin 0) \<or> ngt (decoAscentRateValue cfg) (Fin 30)
        then Some (ConfigError ''decoAscentRate''
                     ''Deco ascent rate must be between 0 and 30 m/min'')
      else None)"

definition BuhlmannConfig_clone :: "BuhlmannConfig \<Rightarrow> BuhlmannConfig" where
  "BuhlmannConfig_clone cfg =
     \<lparr>gfLow = gfLow cfg, gfHigh = gfHigh cfg,
      surfacePressureValue = surfacePressureValue cfg,
      decoAscentRateValue = decoAscentRateValue cfg,
      ceilingTypeValue = ceilingTypeValue cfg,
      roundCeilingValue = roundCeilingValue cfg,
      ndlTypeValue = ndlTypeValue cfg\<rparr>"

section \<open>ZH-L16C parameters\<close>

record ZHLParams =
  n2a :: number
  n2b :: number
  n2ht :: number
  hea :: number
  heb :: number
  heht :: number

definition zhl :: "real \<Rightarrow> real \<Rightarrow> real \<Rightarrow> real \<Rightarrow> real \<Rightarrow> real \<Rightarrow> ZHLParams" where
  "zhl na nb nht ha hb hht =
     \<lparr>n2a = Fin na, n2b = Fin nb, n2ht = Fin nht, hea = Fin ha, heb = Fin hb, heht = Fin hht\<rparr>"

definition ZHL_16C_N2_16A_HE_VALUES :: "ZHLParams list" where
  "ZHL_16C_N2_16A_HE_VALUES =
     [zhl 1.2599 0.505 4.0 1.7424 0.4245 1.51,
      zhl 1.0 0.6514 8.0 1.383 0.5747 3.02,
      zhl 0.8618 0.7222 12.5 1.1919 0.6527 4.72,
      zhl 0.7562 0.7825 18.5 1.0458 0.7223 6.99,
      zhl 0.62 0.8126 27.0 0.922 0.7582 10.21,
      zhl 0.5043 0.8434 38.3 0.8205 0.7957 14.48,
      zhl 0.441 0.8693 54.3 0.7305 0.8279 20.53,
      zhl 0.4 0.891 77.0 0.6502 0.8553 29.11,
      zhl 0.375 0.9092 109.0 0.595 0.8757 41.2,
      zhl 0.35 0.9222 146.0 0.5545 0.8903 55.19,
      zhl 0.3295 0.9319 187.0 0.5333 0.8997 70.69,
      zhl 0.3065 0.9403 239.0 0.5189 0.9073 90.34,
      zhl 0.2835 0.9477 305.0 0.5181 0.9122 115.29,
      zhl 0.261 0.9544 390.0 0.5176 0.9171 147.42,
      zhl 0.248 0.9602 498.0 0.5172 0.9217 188.24,
      zhl 0.2327 0.9653 635.0 0.5119 0.9267 240.03]"

section \<open>Compartment\<close>

datatype InertGas = Helium | Nitrogen

record RecordData =
  rd_depth :: Depth
  rd_time :: Time
  rd_gas :: Gas

record Compartment =
  no :: nat
  minTolerableAmbPressure :: number
  heIp :: number
  n2Ip :: number
  totalIp :: number
  mValueRaw :: number
  mValueCalc :: number
  params :: ZHLParams
  modelConfig :: BuhlmannConfig

definition getAirInspiredPartialPressures :: "Depth \<Rightarrow> number \<Rightarrow> PartialPressures" where
  "getAirInspiredPartialPressures depth surfacePressure =
     (let ambientPressure = nadd (ndiv surfacePressure (Fin 1000)) (ndiv depth (Fin 10));
          waterVaporPressure = Fin 0.0627;
          inspiredPressure = nsub ambientPressure waterVaporPressure
      in \<lparr>pp_o2 = nmul (Fin 0.21) inspiredPressure,
          pp_n2 = nmul (Fin 0.79) inspiredPressure,
          pp_he = nmul (Fin 0.0) inspiredPressure\<rparr>)"

definition weightedParam :: "number \<Rightarrow> number \<Rightarrow> number \<Rightarrow> number \<Rightarrow> number" where
  "weightedParam heParam hePp' n2Param n2Pp' =
     ndiv (nadd (nmul heParam hePp') (nmul n2Param n2Pp')) (nadd hePp' n2Pp')"

definition weightedZhlParams :: "Compartment \<Rightarrow> number \<Rightarrow> number \<Rightarrow> number \<times> number \<times> number" where
  "weightedZhlParams c hePp' n2Pp' =
     (weightedParam (heht (params c)) hePp' (n2ht (params c)) n2Pp',
      weightedParam (hea (params c)) hePp' (n2a (params c)) n2Pp',
      weightedParam (heb (params c)) hePp' (n2b (params c)) n2Pp')"

definition maxGfAdjustedZhlParams :: "number \<times> number \<times> number \<Rightarrow> number \<Rightarrow> number \<times> number \<times> number" where
  "maxGfAdjustedZhlParams ps maxGf =
     (case ps of (halfTime, aCoeff, bCoeff) \<Rightarrow>
        let maxGfFraction = ndiv maxGf (Fin 100);
            aCoefficientAdjusted = nmul aCoeff maxGfFraction;
            bCoefficientAdjusted =
              ndiv bCoeff (nadd (nsub maxGfFraction (nmul maxGfFraction bCoeff)) bCoeff)
        in (halfTime, aCoefficientAdjusted, bCoefficientAdjusted))"

definition mValue :: "Compartment \<Rightarrow> Depth \<Rightarrow> number \<Rightarrow> number \<Rightarrow> number" where
  "mValue c depth surfacePressure maxGf =
     (case maxGfAdjustedZhlParams (weightedZhlParams c (heIp c) (n2Ip c)) maxGf of
        (_, aCoeffAdjusted, bCoeffAdjusted) \<Rightarrow>
          let pSurf = ndiv surfacePressure (Fin 1000);
              pAmb = nadd pSurf (ndiv depth (Fin 10))
          in nadd aCoeffAdjusted (ndiv pAmb bCoeffAdjusted))"

definition minTolerableAmbPressureCalc :: "Compartment \<Rightarrow> number \<Rightarrow> number" where
  "minTolerableAmbPressureCalc c maxGf =
     (case maxGfAdjustedZhlParams (weightedZhlParams c (heIp c) (n2Ip c)) maxGf of
        (_, aCoefficientAdjusted, bCoefficientAdjusted) \<Rightarrow>
          nmul (nsub (totalIp c) aCoefficientAdjusted) bCoefficientAdjusted)"

definition compartmentPressureDeltaHaldane ::
  "Compartment \<Rightarrow> InertGas \<Rightarrow> number \<Rightarrow> Time \<Rightarrow> number \<Rightarrow> number" where
  "compartmentPressureDeltaHaldane c inertGas gasInspiredP time halfTime =
     (let inertGasLoad = (if inertGas = Helium then heIp c else n2Ip c);
          factor = nsub (Fin 1) (npow (Fin 2) (ndiv (nneg (asMinutes time)) halfTime))
      in nmul (nsub gasInspiredP inertGasLoad) factor)"

definition compartmentInertPressure :: "Compartment \<Rightarrow> RecordData \<Rightarrow> number \<Rightarrow> number \<times> number" where
  "compartmentInertPressure c record surfacePressure =
     (let partialPressures = inspiredPartialPressures (rd_gas record) (rd_depth record) surfacePressure;
          heInspiredPp = pp_he partialPressures;
          n2Inspired = pp_n2 partialPressures;
          hePCompDelta =
            compartmentPressureDeltaHaldane c Helium heInspiredPp (rd_time record) (heht (params c));
          n2PCompDelta =
            compartmentPressureDeltaHaldane c Nitrogen n2Inspired (rd_time record) (n2ht (params c));
          heFinal = nadd (heIp c) hePCompDelta;
          n2Final = nadd (n2Ip c) n2PCompDelta
      in (heFinal, n2Final))"

text \<open>
  \<open>recalculate\<close> assigns the fields one after the other: the M-values and the tolerable
  ambient pressure are computed from the new tissue pressures.
\<close>

definition Compartment_recalculate :: "Compartment \<Rightarrow> RecordData \<Rightarrow> number \<Rightarrow> number \<Rightarrow> Compartment" where
  "Compartment_recalculate c record maxGf surfacePressure =
     (case compartmentInertPressure c record surfacePressure of
        (heInertPressure, n2InertPressure) \<Rightarrow>
          let c1 = c\<lparr>heIp := heInertPressure\<rparr>;
              c2 = c1\<lparr>n2Ip := n2InertPressure\<rparr>;
              c3 = c2\<lparr>totalIp := nadd heInertPressure n2InertPressure\<rparr>;
              c4 = c3\<lparr>mValueRaw := mValue c3 (rd_depth record) surfacePressure (Fin 100)\<rparr>;
              c5 = c4\<lparr>mValueCalc := mValue c4 (rd_depth record) surfacePressure maxGf\<rparr>
          in c5\<lparr>minTolerableAmbPressure := minTolerableAmbPressureCalc c5 maxGf\<rparr>)"

definition Compartment_ceiling :: "Compartment \<Rightarrow> Depth" where
  "Compartment_ceiling c =
     (let ceil = nmul (nsub (minTolerableAmbPressure c)
                            (ndiv (surfacePressureValue (modelConfig c)) (Fin 1000.0)))
                      (Fin 10.0)
      in if nlt ceil (Fin 0.0) then Fin 0.0 else ceil)"

text \<open>
  The constructor equilibrates the tissue with air at the surface. It reads
  \<open>this.mValue\<close> and \<open>this.minTolerableAmbPressureCalc\<close> once the tissue pressures are
  assigned; the fields not yet assigned at that point are not read.
\<close>

definition Compartment_new :: "nat \<Rightarrow> ZHLParams \<Rightarrow> BuhlmannConfig \<Rightarrow> Compartment" where
  "Compartment_new n ps cfg =
     (let initGasCompoundPressures =
            getAirInspiredPartialPressures Depth_zero (surfacePressureValue cfg);
          c0 = \<lparr>no = n, minTolerableAmbPressure = NaN,
                heIp = pp_he initGasCompoundPressures,
                n2Ip = pp_n2 initGasCompoundPressures,
                totalIp = nadd (pp_he initGasCompoundPressures) (pp_n2 initGasCompoundPressures),
                mValueRaw = NaN, mValueCalc = NaN, params = ps, modelConfig = cfg\<rparr>;
          c1 = c0\<lparr>mValueRaw := mValue c0 Depth_zero (surfacePressureValue cfg) (Fin 100)\<rparr>;
          c2 = c1\<lparr>mValueCalc := mValueRaw c1\<rparr>
      in c2\<lparr>minTolerableAmbPressure := minTolerableAmbPressureCalc c2 (gfHigh cfg)\<rparr>)"

definition Compartment_clone :: "Compartment \<Rightarrow> Compartment" where
  "Compartment_clone c =
     (Compartment_new (no c) (params c) (modelConfig c))
       \<lparr>n2Ip := n2Ip c, heIp := heIp c, totalIp := totalIp c,
        mValueRaw := mValueRaw c, mValueCalc := mValueCalc c,
        minTolerableAmbPressure := minTolerableAmbPressure c\<rparr>"

section \<open>Oxygen toxicity\<close>

record OxTox =
  cnsValue :: number
  otuValue :: number

record CNSCoeffRow =
  range_lo :: number
  range_hi :: number
  slope :: number
  intercept :: number

definition cnsRow :: "real \<Rightarrow> real \<Rightarrow> real \<Rightarrow> real \<Rightarrow> CNSCoeffRow" where
  "cnsRow lo hi s i = \<lparr>range_lo = Fin lo, range_hi = Fin hi, slope = Fin s, intercept = Fin i\<rparr>"

definition CNS_COEFFICIENTS :: "CNSCoeffRow list" where
  "CNS_COEFFICIENTS =
     [cnsRow 0.5 0.6 (-1800) 1800,
      cnsRow 0.6 0.7 (-1500) 1620,
      cnsRow 0.7 0.8 (-1200) 1410,
      cnsRow 0.8 0.9 (-900) 1170,
      cnsRow 0.9 1.1 (-600) 900,
      cnsRow 1.1 1.5 (-300) 570,
      cnsRow 1.5 1.65 (-750) 1245]"

fun findCnsRate :: "CNSCoeffRow list \<Rightarrow> number \<Rightarrow> number option" where
  "findCnsRate [] ppO2 = None"
| "findCnsRate (coeff # rest) ppO2 =
     (if nge ppO2 (range_lo coeff) \<and> nle ppO2 (range_hi coeff)
      then Some (nadd (nmul (slope coeff) ppO2) (intercept coeff))
      else findCnsRate rest ppO2)"

definition getCnsRate :: "number \<Rightarrow> number" where
  "getCnsRate ppO2 =
     (case findCnsRate CNS_COEFFICIENTS ppO2 of
        Some r \<Rightarrow> r
      | None \<Rightarrow>
          if nlt ppO2 (Fin 0.5) then Fin 0
          else if ngt ppO2 (Fin 1.65)
            then (let lastCoeff = last CNS_COEFFICIENTS
                  in nadd (nmul (slope lastCoeff) ppO2) (intercept lastCoeff))
          else Fin 0)"

definition addExposure :: "OxTox \<Rightarrow> number \<Rightarrow> Time \<Rightarrow> OxTox" where
  "addExposure ox ppO2 t =
     (let cnsRate = getCnsRate ppO2;
          ox1 = (if ngt cnsRate (Fin 0)
                 then ox\<lparr>cnsValue := nadd (cnsValue ox) (ndiv (asMinutes t) cnsRate)\<rparr>
                 else ox)
      in if ngt ppO2 (Fin 0.5)
         then (let otuRate = npow (ndiv (nsub ppO2 (Fin 0.5)) (Fin 0.5)) (Fin 0.83)
               in ox1\<lparr>otuValue := nadd (otuValue ox1) (nmul otuRate (asMinutes t))\<rparr>)
         else ox1)"

definition OxTox_default :: OxTox where
  "OxTox_default = \<lparr>cnsValue = Fin 0, otuValue = Fin 0\<rparr>"

definition OxTox_clone :: "OxTox \<Rightarrow> OxTox" where
  "OxTox_clone ox = \<lparr>cnsValue = cnsValue ox, otuValue = otuValue ox\<rparr>"

section \<open>The store\<close>

text \<open>
  The objects that the methods mutate live in a store: the models, the compartments and
  the oxygen-toxicity counters, each kind under addresses, with one allocation counter.
  A model holds the addresses of its compartments (the array is assigned whole and never
  written by index) and of its \<open>OxTox\<close>; its \<open>state\<close> object is never shared, so it is
  held inline. Depths, times, gases, parameter tuples and configurations are never
  mutated by a method of the model and are held by value.
\<close>

type_synonym addr = nat

record BuhlmannState =
  depth :: Depth
  time :: Time
  gas :: Gas
  gfLowDepth :: "Depth option"
  oxTox :: addr

record BuhlmannModel =
  configuration :: BuhlmannConfig
  compartments :: "addr list"
  state :: BuhlmannState
  sim :: bool

record heap =
  models :: "addr \<Rightarrow> BuhlmannModel"
  comps :: "addr \<Rightarrow> Compartment"
  oxs :: "addr \<Rightarrow> OxTox"
  nxt :: addr

text \<open>
  A method returns a value or throws, in a store; \<open>None\<close> stands for a call that does not
  return.
\<close>

datatype 'a outcome = Ret 'a heap | Throw error heap

definition return :: "'a \<Rightarrow> heap \<Rightarrow> 'a outcome option" where
  "return x h = Some (Ret x h)"

definition throw :: "error \<Rightarrow> heap \<Rightarrow> 'a outcome option" where
  "throw e h = Some (Throw e h)"

definition andThen ::
  "'a outcome option \<Rightarrow> ('a \<Rightarrow> heap \<Rightarrow> 'b outcome option) \<Rightarrow> 'b outcome option" where
  "andThen r f =
     (case r of
        None \<Rightarrow> None
      | Some (Throw e h) \<Rightarrow> Some (Throw e h)
      | Some (Ret x h) \<Rightarrow> f x h)"

lemma andThen_mono [partial_function_mono]:
  assumes "\<And>x h. mono_option (\<lambda>f. B f x h)"
  shows "mono_option (\<lambda>f. andThen m (\<lambda>x h. B f x h))"
  using assms unfolding andThen_def
  by (auto simp: monotone_def flat_ord_def fun_ord_def split: option.splits outcome.splits)

lemma andThen_cong [fundef_cong]:
  assumes "m = m'" and "\<And>x h. m' = Some (Ret x h) \<Longrightarrow> f x h = f' x h"
  shows "andThen m f = andThen m' f'"
  using assms unfolding andThen_def by (auto split: option.splits outcome.splits)

definition set_state :: "addr \<Rightarrow> (BuhlmannState \<Rightarrow> BuhlmannState) \<Rightarrow> heap \<Rightarrow> heap" where
  "set_state a f h = h\<lparr>models := (models h)(a := (models h a)\<lparr>state := f (state (models h a))\<rparr>)\<rparr>"

definition set_comp :: "addr \<Rightarrow> Compartment \<Rightarrow> heap \<Rightarrow> heap" where
  "set_comp c v h = h\<lparr>comps := (comps h)(c := v)\<rparr>"

section \<open>The model: recording\<close>

definition validateDepth :: "Depth \<Rightarrow> heap \<Rightarrow> unit outcome option" where
  "validateDepth d h =
     (if nlt d Depth_zero then throw DepthNegative h
      else if ngt d (Fin 200) then throw DepthExceedsMaximum h
      else return () h)"

text \<open>
  The leading compartment: \<open>None\<close> is the \<open>undefined\<close> that \<open>compartments[0]\<close> yields on
  an empty array.
\<close>

fun leadingLoop :: "heap \<Rightarrow> addr \<Rightarrow> addr list \<Rightarrow> addr" where
  "leadingLoop h leading [] = leading"
| "leadingLoop h leading (c # cs) =
     leadingLoop h
       (if ngt (minTolerableAmbPressure (comps h c)) (minTolerableAmbPressure (comps h leading))
        then c else leading) cs"

definition leadingComp :: "addr \<Rightarrow> heap \<Rightarrow> addr option" where
  "leadingComp a h =
     (case compartments (models h a) of
        [] \<Rightarrow> None
      | c # cs \<Rightarrow> Some (leadingLoop h c cs))"

fun recalculateEach :: "addr list \<Rightarrow> RecordData \<Rightarrow> number \<Rightarrow> number \<Rightarrow> heap \<Rightarrow> heap" where
  "recalculateEach [] r maxGf sp h = h"
| "recalculateEach (c # cs) r maxGf sp h =
     recalculateEach cs r maxGf sp (set_comp c (Compartment_recalculate (comps h c) r maxGf sp) h)"

fun gfLowDepthLoop :: "heap \<Rightarrow> number \<Rightarrow> number \<Rightarrow> number \<Rightarrow> addr list \<Rightarrow> number" where
  "gfLowDepthLoop h surfacePressureBar gfLowFraction maxCalculatedDepthM [] = maxCalculatedDepthM"
| "gfLowDepthLoop h surfacePressureBar gfLowFraction maxCalculatedDepthM (c # cs) =
     (let comp = comps h c;
          total = totalIp comp;
          w = weightedZhlParams comp (heIp comp) (n2Ip comp);
          aWeighted = fst (snd w);
          bWeighted = snd (snd w);
          maxAmbP = ndiv (nsub total (nmul gfLowFraction aWeighted))
                         (nadd (nsub (Fin 1.0) gfLowFraction) (ndiv gfLowFraction bWeighted));
          maxDepth = nmax (Fin 0.0) (nmul (Fin 10.0) (nsub maxAmbP surfacePressureBar))
      in gfLowDepthLoop h surfacePressureBar gfLowFraction
           (nmax maxCalculatedDepthM maxDepth) cs)"

definition gfSlopePoint :: "BuhlmannConfig \<Rightarrow> Depth \<Rightarrow> Depth \<Rightarrow> number" where
  "gfSlopePoint cfg gfLowDepth' d =
     nsub (gfHigh cfg) (nmul (ndiv (nsub (gfHigh cfg) (gfLow cfg)) gfLowDepth') d)"

text \<open>
  The methods from \<open>calcMaxSlopedGF\<close> up to \<open>recordTravelWithRate\<close> call
  \<open>this.ceiling()\<close>, and \<open>ceiling\<close> itself drives a fork through
  \<open>recordTravelWithRate\<close>. They are defined here with the ceiling method as a parameter
  \<open>cl\<close>, and instantiated once that method (\<open>ceiling_model\<close>) is defined.
\<close>

definition calcMaxSlopedGF_with ::
  "(addr \<Rightarrow> heap \<Rightarrow> Depth outcome option) \<Rightarrow> addr \<Rightarrow> Depth \<Rightarrow> heap \<Rightarrow> number outcome option" where
  "calcMaxSlopedGF_with cl a d h =
     andThen (cl a h) (\<lambda>ceil h1.
       let cfg = configuration (models h1 a);
           inDeco = ngt ceil Depth_zero
       in if \<not> inDeco then return (gfHigh cfg) h1
          else
            let r = (case gfLowDepth (state (models h1 a)) of
                       Some gld \<Rightarrow> (gld, h1)
                     | None \<Rightarrow>
                         let surfacePressureBar = ndiv (surfacePressureValue cfg) (Fin 1000.0);
                             gfLowFraction = ndiv (gfLow cfg) (Fin 100.0);
                             calculatedGfLowDepth =
                               gfLowDepthLoop h1 surfacePressureBar gfLowFraction (Fin 0.0)
                                 (compartments (models h1 a))
                         in (calculatedGfLowDepth,
                             set_state a (\<lambda>s. s\<lparr>gfLowDepth := Some calculatedGfLowDepth\<rparr>) h1));
                gld = fst r;
                h2 = snd r
            in if ngt d gld then return (gfLow cfg) h2
               else return (gfSlopePoint cfg gld d) h2)"

definition recalculateCompartments_with ::
  "(addr \<Rightarrow> heap \<Rightarrow> Depth outcome option) \<Rightarrow> addr \<Rightarrow> RecordData \<Rightarrow> heap \<Rightarrow> unit outcome option" where
  "recalculateCompartments_with cl a r h =
     (let cfg = configuration (models h a);
          h1 = recalculateEach (compartments (models h a)) r (gfHigh cfg) (surfacePressureValue cfg) h
      in if \<not> neq (gfHigh cfg) (gfLow cfg)
         then andThen (calcMaxSlopedGF_with cl a (rd_depth r) h1) (\<lambda>maxGf h2.
                case leadingComp a h2 of
                  None \<Rightarrow> throw TypeError h2
                | Some lc \<Rightarrow>
                    return ()
                      (set_comp lc
                         (Compartment_recalculate (comps h2 lc) (r\<lparr>rd_time := Time_zero\<rparr>) maxGf
                            (surfacePressureValue (configuration (models h2 a)))) h2))
         else return () h1)"

definition recalculateOxTox :: "addr \<Rightarrow> RecordData \<Rightarrow> heap \<Rightarrow> heap" where
  "recalculateOxTox a r h =
     (let pps = inspiredPartialPressures (rd_gas r) (rd_depth r)
                  (surfacePressureValue (configuration (models h a)));
          ox = oxTox (state (models h a))
      in h\<lparr>oxs := (oxs h)(ox := addExposure (oxs h ox) (pp_o2 pps) (rd_time r))\<rparr>)"

definition recalculate_with ::
  "(addr \<Rightarrow> heap \<Rightarrow> Depth outcome option) \<Rightarrow> addr \<Rightarrow> RecordData \<Rightarrow> heap \<Rightarrow> unit outcome option" where
  "recalculate_with cl a r h =
     andThen (recalculateCompartments_with cl a r h) (\<lambda>_ h1.
       if \<not> sim (models h1 a) then return () (recalculateOxTox a r h1) else return () h1)"

definition record_with ::
  "(addr \<Rightarrow> heap \<Rightarrow> Depth outcome option) \<Rightarrow> addr \<Rightarrow> Depth \<Rightarrow> Time \<Rightarrow> Gas \<Rightarrow> heap
     \<Rightarrow> unit outcome option" where
  "record_with cl a d t g h =
     andThen (validateDepth d h) (\<lambda>_ h0.
       let h1 = set_state a (\<lambda>s. s\<lparr>depth := d\<rparr>) h0;
           h2 = set_state a (\<lambda>s. s\<lparr>gas := g\<rparr>) h1;
           h3 = set_state a (\<lambda>s. s\<lparr>time := nadd (time s) t\<rparr>) h2
       in recalculate_with cl a \<lparr>rd_depth = d, rd_time = t, rd_gas = g\<rparr> h3)"

text \<open>
  The loop of \<open>recordTravel\<close>, \<open>while (i < travelTime.asSeconds())\<close>: it does not return
  when the travel time is Infinity and no step throws.
\<close>

partial_function (option) travelLoop ::
  "(addr \<Rightarrow> heap \<Rightarrow> Depth outcome option) \<Rightarrow> addr \<Rightarrow> number \<Rightarrow> number \<Rightarrow> Gas \<Rightarrow> nat \<Rightarrow> Depth
     \<Rightarrow> heap \<Rightarrow> unit outcome option" where
  "travelLoop cl a secs distRate g i currentDepth h =
     (if nlt (Fin (real i)) secs
      then
        (let h1 = set_state a (\<lambda>s. s\<lparr>time := nadd (time s) (Time_fromSeconds (Fin 1))\<rparr>) h;
             currentDepth1 = nadd currentDepth distRate;
             r = \<lparr>rd_depth = currentDepth1, rd_time = Time_fromSeconds (Fin 1), rd_gas = g\<rparr>
         in andThen (recalculate_with cl a r h1) (\<lambda>_ h2.
              travelLoop cl a secs distRate g (i + 1) currentDepth1 h2))
      else return () h)"

definition recordTravel_with ::
  "(addr \<Rightarrow> heap \<Rightarrow> Depth outcome option) \<Rightarrow> addr \<Rightarrow> Depth \<Rightarrow> Time \<Rightarrow> Gas \<Rightarrow> heap
     \<Rightarrow> unit outcome option" where
  "recordTravel_with cl a targetDepth t g h =
     andThen (validateDepth targetDepth h) (\<lambda>_ h0.
       let h1 = set_state a (\<lambda>s. s\<lparr>gas := g\<rparr>) h0;
           currentDepth = depth (state (models h1 a));
           distance = nsub targetDepth currentDepth;
           travelTime = t;
           distRate = ndiv distance (asSeconds travelTime)
       in andThen (travelLoop cl a (asSeconds travelTime) distRate g 0 currentDepth h1) (\<lambda>_ h2.
            return () (set_state a (\<lambda>s. s\<lparr>depth := targetDepth\<rparr>) h2)))"

definition recordTravelWithRate_with ::
  "(addr \<Rightarrow> heap \<Rightarrow> Depth outcome option) \<Rightarrow> addr \<Rightarrow> Depth \<Rightarrow> number \<Rightarrow> Gas \<Rightarrow> heap
     \<Rightarrow> unit outcome option" where
  "recordTravelWithRate_with cl a targetDepth rate g h =
     (let distance = nabs (nsub targetDepth (depth (state (models h a))));
          travelTimeMinutes = ndiv distance rate;
          travelTime = Time_fromMinutes travelTimeMinutes
      in recordTravel_with cl a targetDepth travelTime g h)"

section \<open>The model: construction and forks\<close>

fun createCompartments :: "nat \<Rightarrow> ZHLParams list \<Rightarrow> BuhlmannConfig \<Rightarrow> heap \<Rightarrow> addr list \<times> heap" where
  "createCompartments index [] cfg h = ([], h)"
| "createCompartments index (ps # rest) cfg h =
     (let c = nxt h;
          h1 = h\<lparr>comps := (comps h)(c := Compartment_new (index + 1) ps cfg), nxt := Suc c\<rparr>;
          r = createCompartments (index + 1) rest cfg h1
      in (c # fst r, snd r))"

text \<open>
  The constructor validates the configuration before it assigns anything; the error it
  throws carries the field and the reason. \<open>construct_model\<close> is its body after the
  validation: the new model, its \<open>OxTox\<close> and its sixteen compartments are allocated
  in this order.
\<close>

definition construct_model :: "BuhlmannConfig \<Rightarrow> heap \<Rightarrow> addr \<times> heap" where
  "construct_model cfg h =
     (let a = nxt h;
          h1 = h\<lparr>nxt := Suc a\<rparr>;
          ox = nxt h1;
          h2 = h1\<lparr>oxs := (oxs h1)(ox := OxTox_default), nxt := Suc ox\<rparr>;
          r = createCompartments 0 ZHL_16C_N2_16A_HE_VALUES cfg h2;
          h3 = snd r;
          m = \<lparr>configuration = cfg, compartments = fst r,
               state = \<lparr>depth = Depth_zero, time = Time_zero, gas = Gas_air,
                        gfLowDepth = None, oxTox = ox\<rparr>,
               sim = False\<rparr>
      in (a, h3\<lparr>models := (models h3)(a := m)\<rparr>))"

definition BuhlmannModel_new :: "BuhlmannConfig \<Rightarrow> heap \<Rightarrow> addr outcome option" where
  "BuhlmannModel_new cfg h =
     (case validate cfg of
        Some e \<Rightarrow> throw e h
      | None \<Rightarrow> return (fst (construct_model cfg h)) (snd (construct_model cfg h)))"

fun cloneEach :: "addr list \<Rightarrow> heap \<Rightarrow> addr list \<times> heap" where
  "cloneEach [] h = ([], h)"
| "cloneEach (c # cs) h =
     (let c' = nxt h;
          h1 = h\<lparr>comps := (comps h)(c' := Compartment_clone (comps h c)), nxt := Suc c'\<rparr>;
          r = cloneEach cs h1
      in (c' # fst r, snd r))"

text \<open>
  \<open>fork\<close> and \<open>clone\<close> build a model with the constructor and then assign it a new
  state object with a clone of the \<open>OxTox\<close>, the array of the cloned compartments, and
  the flag. They differ in the configuration they pass: the receiver's, or a clone of it.
\<close>

definition copyInto :: "addr \<Rightarrow> addr \<Rightarrow> heap \<Rightarrow> heap" where
  "copyInto a cloned h =
     (let this = models h a;
          ox' = nxt h;
          h1 = h\<lparr>oxs := (oxs h)(ox' := OxTox_clone (oxs h (oxTox (state this)))), nxt := Suc ox'\<rparr>;
          st = \<lparr>depth = depth (state this), time = time (state this), gas = gas (state this),
                gfLowDepth = gfLowDepth (state this), oxTox = ox'\<rparr>;
          h2 = h1\<lparr>models := (models h1)(cloned := (models h1 cloned)\<lparr>state := st\<rparr>)\<rparr>;
          r = cloneEach (compartments this) h2;
          h3 = snd r;
          h4 = h3\<lparr>models := (models h3)(cloned := (models h3 cloned)\<lparr>compartments := fst r\<rparr>)\<rparr>
      in h4\<lparr>models := (models h4)(cloned := (models h4 cloned)\<lparr>sim := True\<rparr>)\<rparr>)"

definition fork :: "addr \<Rightarrow> heap \<Rightarrow> addr outcome option" where
  "fork a h =
     andThen (BuhlmannModel_new (configuration (models h a)) h) (\<lambda>cloned h1.
       return cloned (copyInto a cloned h1))"

definition clone :: "addr \<Rightarrow> heap \<Rightarrow> addr outcome option" where
  "clone a h =
     andThen (BuhlmannModel_new (BuhlmannConfig_clone (configuration (models h a))) h) (\<lambda>cloned h1.
       return cloned (copyInto a cloned h1))"

section \<open>The model: ceiling\<close>

definition actualCeiling :: "addr \<Rightarrow> heap \<Rightarrow> Depth outcome option" where
  "actualCeiling a h =
     (case leadingComp a h of
        None \<Rightarrow> throw TypeError h
      | Some lc \<Rightarrow> return (Compartment_ceiling (comps h lc)) h)"

definition roundCeiling :: "BuhlmannConfig \<Rightarrow> Depth \<Rightarrow> Depth" where
  "roundCeiling cfg c = (if roundCeilingValue cfg then nceil c else c)"

text \<open>
  \<open>ceiling()\<close> on a receiver whose \<open>sim\<close> flag is set: the flag selects the branch
  \<open>Actual\<close>. A fork has the flag set, and the methods below are called on forks with
  this ceiling.
\<close>

definition ceilingSim :: "addr \<Rightarrow> heap \<Rightarrow> Depth outcome option" where
  "ceilingSim a h =
     andThen (actualCeiling a h) (\<lambda>c h1.
       return (roundCeiling (configuration (models h1 a)) c) h1)"

text \<open>
  The loop of the adaptive ceiling. It returns the counter \<open>iterations\<close> with the
  ceiling, so that the number of ascents can be stated.
\<close>

function adaptiveLoop ::
  "BuhlmannConfig \<Rightarrow> addr \<Rightarrow> Gas \<Rightarrow> nat \<Rightarrow> Depth \<Rightarrow> heap \<Rightarrow> (Depth \<times> nat) outcome option" where
  "adaptiveLoop cfg simModel simGas iterations calculatedCeiling h =
     (let simDepth = depth (state (models h simModel))
      in if nle simDepth (Fin 0) \<or> nle simDepth calculatedCeiling
         then return (calculatedCeiling, iterations) h
         else
           andThen (recordTravelWithRate_with ceilingSim simModel calculatedCeiling
                      (decoAscentRateValue cfg) simGas h) (\<lambda>_ h1.
             andThen (ceilingSim simModel h1) (\<lambda>c h2.
               if iterations + 1 > 50 then return (c, iterations + 1) h2
               else adaptiveLoop cfg simModel simGas (iterations + 1) c h2)))"
  by pat_completeness auto
termination
  by (relation "measure (\<lambda>(cfg, s, g, iterations, c, h). 51 - iterations)") auto

declare adaptiveLoop.simps [simp del]

text \<open>The method \<open>ceiling\<close> of the model.\<close>

definition ceiling_model :: "addr \<Rightarrow> heap \<Rightarrow> Depth outcome option" where
  "ceiling_model a h =
     (let config = configuration (models h a);
          ceilingType = (if sim (models h a) then Actual else ceilingTypeValue config)
      in andThen
           (case ceilingType of
              Actual \<Rightarrow> actualCeiling a h
            | Adaptive \<Rightarrow>
                andThen (fork a h) (\<lambda>simModel h1.
                  let simGas = gas (state (models h1 simModel))
                  in andThen (ceilingSim simModel h1) (\<lambda>calculatedCeiling h2.
                       andThen (adaptiveLoop config simModel simGas 0 calculatedCeiling h2)
                         (\<lambda>r h3. return (fst r) h3))))
           (\<lambda>c h4. return (roundCeiling config c) h4))"

definition calcMaxSlopedGF :: "addr \<Rightarrow> Depth \<Rightarrow> heap \<Rightarrow> number outcome option" where
  "calcMaxSlopedGF = calcMaxSlopedGF_with ceiling_model"

definition recalculate_model :: "addr \<Rightarrow> RecordData \<Rightarrow> heap \<Rightarrow> unit outcome option" where
  "recalculate_model = recalculate_with ceiling_model"

definition record_model :: "addr \<Rightarrow> Depth \<Rightarrow> Time \<Rightarrow> Gas \<Rightarrow> heap \<Rightarrow> unit outcome option" where
  "record_model = record_with ceiling_model"

definition recordTravel :: "addr \<Rightarrow> Depth \<Rightarrow> Time \<Rightarrow> Gas \<Rightarrow> heap \<Rightarrow> unit outcome option" where
  "recordTravel = recordTravel_with ceiling_model"

definition recordTravelWithRate ::
  "addr \<Rightarrow> Depth \<Rightarrow> number \<Rightarrow> Gas \<Rightarrow> heap \<Rightarrow> unit outcome option" where
  "recordTravelWithRate = recordTravelWithRate_with ceiling_model"

section \<open>The model: decompression schedule\<close>

datatype DecoStageType = Ascent | DecoStop | GasSwitch

record DecoStage =
  stageType :: DecoStageType
  startDepth :: Depth
  endDepth :: Depth
  duration :: Time
  stage_gas :: Gas

record DecoRuntime =
  decoStages :: "DecoStage list"
  tts :: Time
  ttsSurface :: Time
  runtime_sim :: bool

definition decoStopDepth :: "Depth \<Rightarrow> Depth" where
  "decoStopDepth ceil = nmul (nceil (ndiv ceil (Fin 3))) (Fin 3)"

text \<open>
  \<open>candidates.sort((a, b) => a.o2 - b.o2)\<close>: the sort of the language is stable and
  reads a comparator result NaN as 0. An insertion that keeps an element before the
  later ones it does not exceed computes that order.
\<close>

fun insertGas :: "Gas \<Rightarrow> Gas list \<Rightarrow> Gas list" where
  "insertGas g [] = [g]"
| "insertGas g (x # xs) =
     (if ngt (nsub (o2Pp g) (o2Pp x)) (Fin 0) then x # insertGas g xs else g # x # xs)"

definition sortByO2 :: "Gas list \<Rightarrow> Gas list" where
  "sortByO2 gs = foldr insertGas gs []"

definition nextSwitchGas :: "BuhlmannConfig \<Rightarrow> Depth \<Rightarrow> Gas \<Rightarrow> Gas list \<Rightarrow> Gas option" where
  "nextSwitchGas cfg currentDepth currentGas gasMixes =
     (let currentPPO2 = pp_o2 (partialPressures currentGas currentDepth (surfacePressureValue cfg));
          candidates =
            filter (\<lambda>g. ngt (pp_o2 (partialPressures g currentDepth (surfacePressureValue cfg)))
                            currentPPO2) gasMixes
      in if length candidates = 0 then None
         else (case sortByO2 candidates of [] \<Rightarrow> None | g # _ \<Rightarrow> Some g))"

definition nextDecoAction ::
  "addr \<Rightarrow> addr \<Rightarrow> Gas list \<Rightarrow> heap \<Rightarrow> (DecoStageType option \<times> Gas option) outcome option" where
  "nextDecoAction a simModel gasMixes h =
     (let currentDepth = depth (state (models h simModel));
          currentGas = gas (state (models h simModel))
      in if nle currentDepth (Fin 0) then return (None, None) h
         else
           andThen (ceiling_model simModel h) (\<lambda>ceil h1.
             if nle ceil (Fin 0) then return (Some Ascent, None) h1
             else if nlt currentDepth (decoStopDepth ceil) then return (Some Ascent, None) h1
             else
               let nextGas = nextSwitchGas (configuration (models h1 a)) currentDepth currentGas gasMixes
               in if (case nextGas of
                        Some g \<Rightarrow> \<not> Gas_equals g currentGas
                                    \<and> nle currentDepth (maxOperatingDepth g (Fin 1.6))
                      | None \<Rightarrow> False)
                  then return (Some GasSwitch, nextGas) h1
                  else if neq currentDepth (decoStopDepth ceil) then return (Some DecoStop, None) h1
                  else if (case nextGas of
                             Some g \<Rightarrow> nge (maxOperatingDepth g (Fin 1.6)) ceil
                           | None \<Rightarrow> False)
                  then return (Some GasSwitch, nextGas) h1
                  else return (Some Ascent, None) h1))"

definition registerDecoStage :: "DecoStage list \<Rightarrow> DecoStage \<Rightarrow> DecoStage list" where
  "registerDecoStage stages stage =
     (if stages \<noteq> []
         \<and> stageType (last stages) = stageType stage
         \<and> neq (endDepth (last stages)) (startDepth stage)
         \<and> Gas_equals (stage_gas (last stages)) (stage_gas stage)
      then butlast stages
             @ [(last stages)\<lparr>duration := nadd (duration (last stages)) (duration stage),
                              endDepth := endDepth stage\<rparr>]
      else stages @ [stage])"

definition diveState :: "addr \<Rightarrow> heap \<Rightarrow> BuhlmannState" where
  "diveState a h = state (models h a)"

text \<open>
  One stage of the schedule, for an action that \<open>nextDecoAction\<close> chose; \<open>pre\<close> is the
  state of the simulation read at the start of the round.
\<close>

definition decoStage ::
  "addr \<Rightarrow> addr \<Rightarrow> BuhlmannState \<Rightarrow> DecoStageType \<Rightarrow> Gas option \<Rightarrow> Depth \<Rightarrow> DecoStage list
     \<Rightarrow> heap \<Rightarrow> DecoStage list outcome option" where
  "decoStage a simModel pre decoAction nextSwitchGas' ceil stages h =
     (let preStageDepth = depth pre;
          preStageTime = time pre;
          preStageGas = gas pre;
          rate = decoAscentRateValue (configuration (models h a))
      in case decoAction of
           Ascent \<Rightarrow>
             let stopDepth = decoStopDepth ceil
             in andThen (recordTravelWithRate simModel stopDepth rate preStageGas h) (\<lambda>_ h1.
                  let postStageState = diveState simModel h1
                  in return
                       (stages @ [\<lparr>stageType = Ascent, startDepth = preStageDepth,
                                   endDepth = depth postStageState,
                                   duration = nsub (time postStageState) preStageTime,
                                   stage_gas = gas postStageState\<rparr>]) h1)
         | DecoStop \<Rightarrow>
             let stopDepth = decoStopDepth ceil
             in andThen (record_model simModel preStageDepth (Time_fromSeconds (Fin 1)) preStageGas h)
                  (\<lambda>_ h1.
                  let postStageState = diveState simModel h1
                  in return
                       (registerDecoStage stages
                          \<lparr>stageType = DecoStop, startDepth = stopDepth, endDepth = stopDepth,
                           duration = nsub (time postStageState) preStageTime,
                           stage_gas = gas postStageState\<rparr>) h1)
         | GasSwitch \<Rightarrow>
             (case nextSwitchGas' of
                None \<Rightarrow> return stages h
              | Some switchGas \<Rightarrow>
                  let switchMod = maxOperatingDepth switchGas (Fin 1.6)
                  in andThen
                       (if ngt preStageDepth switchMod
                        then andThen (recordTravelWithRate simModel switchMod rate preStageGas h)
                               (\<lambda>_ h1.
                               let postAscentState = diveState simModel h1
                               in return
                                    (stages @ [\<lparr>stageType = Ascent, startDepth = preStageDepth,
                                                endDepth = depth postAscentState,
                                                duration = nsub (time postAscentState) preStageTime,
                                                stage_gas = preStageGas\<rparr>]) h1)
                        else return stages h)
                       (\<lambda>stages1 h2.
                         andThen (record_model simModel (depth (diveState simModel h2)) Time_zero
                                    switchGas h2) (\<lambda>_ h3.
                           let postSwitchState = diveState simModel h3
                           in return
                                (registerDecoStage stages1
                                   \<lparr>stageType = GasSwitch, startDepth = depth postSwitchState,
                                    endDepth = depth postSwitchState, duration = Time_zero,
                                    stage_gas = switchGas\<rparr>) h3))))"

text \<open>
  The loop of \<open>deco\<close>, \<open>while (true)\<close>: it ends when no action is left. Each round
  first reads the depth, the time and the gas of the simulation (\<open>pre\<close>).
\<close>

partial_function (option) decoLoop ::
  "addr \<Rightarrow> addr \<Rightarrow> Gas list \<Rightarrow> DecoStage list \<Rightarrow> heap \<Rightarrow> DecoStage list outcome option" where
  "decoLoop a simModel gasMixes stages h =
     andThen (ceiling_model simModel h) (\<lambda>ceil h1.
       andThen (nextDecoAction a simModel gasMixes h1) (\<lambda>r h2.
         case fst r of
           None \<Rightarrow> return stages h2
         | Some decoAction \<Rightarrow>
             andThen (decoStage a simModel (state (models h simModel)) decoAction (snd r) ceil
                        stages h2) (\<lambda>stages1 h3.
               decoLoop a simModel gasMixes stages1 h3)))"

definition deco :: "addr \<Rightarrow> Gas list \<Rightarrow> heap \<Rightarrow> DecoRuntime outcome option" where
  "deco a gasMixes h =
     andThen (clone a h) (\<lambda>simModel h0.
       let h1 = h0\<lparr>models := (models h0)(simModel := (models h0 simModel)\<lparr>sim := True\<rparr>)\<rparr>
       in if length gasMixes = 0 then throw EmptyGasList h1
          else if find (\<lambda>g. Gas_equals g (gas (state (models h1 simModel)))) gasMixes = None
            then throw CurrentGasNotInList h1
          else
            andThen (decoLoop a simModel gasMixes [] h1) (\<lambda>stages h2.
              let total = foldl (\<lambda>total stage. nadd total (duration stage)) Time_zero stages
              in return \<lparr>decoStages = stages, tts = total, ttsSurface = total,
                         runtime_sim = True\<rparr> h2))"

section \<open>The model: in deco, no-decompression limit\<close>

definition inDeco :: "addr \<Rightarrow> heap \<Rightarrow> bool outcome option" where
  "inDeco a h =
     (case ceilingTypeValue (configuration (models h a)) of
        Actual \<Rightarrow> andThen (ceiling_model a h) (\<lambda>c h1. return (ngt c Depth_zero) h1)
      | Adaptive \<Rightarrow>
          let currentGas = gas (diveState a h)
          in andThen (deco a [currentGas] h) (\<lambda>runtime h1.
               return (length (decoStages runtime) > 1) h1))"

definition NDL_CUT_OFF_MINS :: nat where
  "NDL_CUT_OFF_MINS = 99"

function ndlLoop :: "addr \<Rightarrow> addr \<Rightarrow> Time \<Rightarrow> nat \<Rightarrow> heap \<Rightarrow> Time outcome option" where
  "ndlLoop a simModel interval i h =
     (if i < NDL_CUT_OFF_MINS
      then andThen (record_model simModel (depth (state (models h a))) interval
                      (gas (state (models h a))) h) (\<lambda>_ h1.
             andThen (inDeco simModel h1) (\<lambda>d h2.
               if d then return (nmul interval (Fin (real i))) h2
               else ndlLoop a simModel interval (i + 1) h2))
      else return (Time_fromMinutes (Fin (real NDL_CUT_OFF_MINS))) h)"
  by pat_completeness auto
termination
  by (relation "measure (\<lambda>(a, s, interval, i, h). NDL_CUT_OFF_MINS - i)") auto

declare ndlLoop.simps [simp del]

definition ndl :: "addr \<Rightarrow> heap \<Rightarrow> Time outcome option" where
  "ndl a h =
     andThen (inDeco a h) (\<lambda>d h1.
       if d then return Time_zero h1
       else andThen (fork a h1) (\<lambda>simModel h2.
              ndlLoop a simModel (Time_fromMinutes (Fin 1)) 0 h2))"

section \<open>Predicates and examples for the statements\<close>

text \<open>
  The store of an outcome; \<open>pres N h h'\<close>: every object below the address \<open>N\<close> is in
  \<open>h'\<close> what it is in \<open>h\<close>; \<open>keeps b h h'\<close>: the model \<open>b\<close> has the configuration, the
  compartments, the flag and the \<open>OxTox\<close> it had, and a cached \<open>gfLowDepth\<close> is the one
  it had; \<open>core\<close>: moreover its depth, time and gas are unchanged; \<open>own N h b\<close>: the model
  \<open>b\<close> and the objects it refers to are allocated in \<open>h\<close>, at addresses from \<open>N\<close> on (with
  \<open>N = 0\<close>: the references of \<open>b\<close> do not dangle, as in the program).
\<close>

fun heap_of :: "'a outcome \<Rightarrow> heap" where
  "heap_of (Ret x h) = h"
| "heap_of (Throw e h) = h"

definition pres :: "addr \<Rightarrow> heap \<Rightarrow> heap \<Rightarrow> bool" where
  "pres N h h' \<longleftrightarrow>
     nxt h \<le> nxt h' \<and>
     (\<forall>x<N. models h' x = models h x \<and> comps h' x = comps h x \<and> oxs h' x = oxs h x)"

definition keeps :: "addr \<Rightarrow> heap \<Rightarrow> heap \<Rightarrow> bool" where
  "keeps b h h' \<longleftrightarrow>
     configuration (models h' b) = configuration (models h b) \<and>
     compartments (models h' b) = compartments (models h b) \<and>
     sim (models h' b) = sim (models h b) \<and>
     oxTox (state (models h' b)) = oxTox (state (models h b)) \<and>
     (gfLowDepth (state (models h b)) = None \<or>
      gfLowDepth (state (models h' b)) = gfLowDepth (state (models h b)))"

definition core :: "addr \<Rightarrow> heap \<Rightarrow> heap \<Rightarrow> bool" where
  "core b h h' \<longleftrightarrow>
     keeps b h h' \<and>
     depth (state (models h' b)) = depth (state (models h b)) \<and>
     time (state (models h' b)) = time (state (models h b)) \<and>
     gas (state (models h' b)) = gas (state (models h b))"

definition own :: "addr \<Rightarrow> heap \<Rightarrow> addr \<Rightarrow> bool" where
  "own N h b \<longleftrightarrow>
     N \<le> b \<and> b < nxt h \<and>
     (\<forall>c\<in>set (compartments (models h b)). N \<le> c \<and> c < nxt h) \<and>
     N \<le> oxTox (state (models h b)) \<and> oxTox (state (models h b)) < nxt h"

definition query_ok :: "(addr \<Rightarrow> heap \<Rightarrow> 'a outcome option) \<Rightarrow> bool" where
  "query_ok q \<longleftrightarrow> (\<forall>b h out. own 0 h b \<longrightarrow> q b h = Some out \<longrightarrow> pres (nxt h) h (heap_of out))"

text \<open>The first compartment of a model with the default configuration, as constructed.\<close>

definition compartment1 :: Compartment where
  "compartment1 = Compartment_new 1 (zhl 1.2599 0.505 4.0 1.7424 0.4245 1.51) BuhlmannConfig_default"

definition blankModel :: BuhlmannModel where
  "blankModel =
     \<lparr>configuration = BuhlmannConfig_default, compartments = [],
      state = \<lparr>depth = Depth_zero, time = Time_zero, gas = Gas_air, gfLowDepth = None, oxTox = 0\<rparr>,
      sim = False\<rparr>"

definition emptyHeap :: heap where
  "emptyHeap =
     \<lparr>models = (\<lambda>_. blankModel), comps = (\<lambda>_. compartment1), oxs = (\<lambda>_. OxTox_default), nxt = 0\<rparr>"

text \<open>
  The store after \<open>new BuhlmannModel(cfg)\<close> on the empty store: the model is at address
  0, its \<open>OxTox\<close> at 1 and its compartments at 2 to 17.
\<close>

definition newHeap :: "BuhlmannConfig \<Rightarrow> heap" where
  "newHeap cfg = snd (construct_model cfg emptyHeap)"

definition freshHeap :: heap where
  "freshHeap = newHeap BuhlmannConfig_default"

definition adaptiveHeap :: heap where
  "adaptiveHeap = newHeap (BuhlmannConfig_default\<lparr>ceilingTypeValue := Adaptive\<rparr>)"

definition initialState :: BuhlmannState where
  "initialState = \<lparr>depth = Fin 0, time = Fin 0, gas = Gas_air, gfLowDepth = None, oxTox = 1\<rparr>"

definition ready :: "addr \<Rightarrow> heap \<Rightarrow> addr \<Rightarrow> bool" where
  "ready N h b \<longleftrightarrow>
     own N h b \<and> compartments (models h b) \<noteq> [] \<and>
     (sim (models h b) \<or> ceilingTypeValue (configuration (models h b)) = Actual)"

definition returns_here :: "(addr \<Rightarrow> heap \<Rightarrow> Depth outcome option) \<Rightarrow> addr \<Rightarrow> bool" where
  "returns_here cl b \<longleftrightarrow> (\<forall>N h. ready N h b \<longrightarrow> (\<exists>c. cl b h = Some (Ret c h)))"

definition unchanged :: "addr \<Rightarrow> heap \<Rightarrow> heap \<Rightarrow> bool" where
  "unchanged a h h' \<longleftrightarrow>
     models h' a = models h a \<and>
     list_all (\<lambda>c. comps h' c = comps h c) (compartments (models h a)) \<and>
     oxs h' (oxTox (state (models h a))) = oxs h (oxTox (state (models h a)))"

definition atRest :: "heap \<Rightarrow> addr \<Rightarrow> bool" where
  "atRest h s \<longleftrightarrow>
     configuration (models h s) = BuhlmannConfig_default \<and> compartments (models h s) \<noteq> [] \<and>
     list_all (\<lambda>c. \<exists>n p. p \<in> set ZHL_16C_N2_16A_HE_VALUES \<and>
                      comps h c = Compartment_new n p BuhlmannConfig_default)
       (compartments (models h s))"

definition deepHeap :: heap where
  "deepHeap = set_state 0 (\<lambda>s. s\<lparr>depth := Fin 1\<rparr>) freshHeap"

definition gf3070 :: BuhlmannConfig where
  "gf3070 = BuhlmannConfig_default\<lparr>gfLow := Fin 30, gfHigh := Fin 70\<rparr>"

definition tissue :: "nat \<Rightarrow> number \<Rightarrow> number \<Rightarrow> number \<Rightarrow> number \<Rightarrow> number \<Rightarrow> ZHLParams \<Rightarrow> Compartment" where
  "tissue n m x tot r1 r2 p =
     \<lparr>no = n, minTolerableAmbPressure = m, heIp = Fin 0, n2Ip = x, totalIp = tot,
      mValueRaw = r1, mValueCalc = r2, params = p, modelConfig = gf3070\<rparr>"

fun isFin :: "number \<Rightarrow> bool" where
  "isFin (Fin x) = True"
| "isFin _ = False"

definition loaded :: "Compartment \<Rightarrow> bool" where
  "loaded c \<longleftrightarrow>
     heIp c = Fin 0 \<and> isFin (n2Ip c) \<and> params c \<in> set ZHL_16C_N2_16A_HE_VALUES \<and>
     modelConfig c = gf3070"

definition slopedHeap :: heap where
  "slopedHeap = newHeap gf3070"

definition sloped :: "heap \<Rightarrow> bool" where
  "sloped h \<longleftrightarrow>
     ready 0 h 0 \<and> configuration (models h 0) = gf3070 \<and> distinct (compartments (models h 0)) \<and>
     (\<forall>c\<in>set (compartments (models h 0)). loaded (comps h c))"



definition loadedHeap :: heap where
  "loadedHeap =
     recalculateEach [2..<18] \<lparr>rd_depth = Fin 40, rd_time = PInf, rd_gas = Gas_air\<rparr> (Fin 70)
       (Fin 1013) slopedHeap"

definition oxygen :: Gas where
  "oxygen = \<lparr>o2Pp = Fin 1, n2Pp = Fin 0, hePp = Fin 0\<rparr>"

definition adrift :: "heap \<Rightarrow> addr \<Rightarrow> bool" where
  "adrift h s \<longleftrightarrow>
     sim (models h s) \<and> compartments (models h s) \<noteq> [] \<and>
     depth (state (models h s)) = NaN \<and>
     (\<forall>c\<in>set (compartments (models h s)). minTolerableAmbPressure (comps h c) = NaN)"

text \<open>
  For the statement that nothing reads \<open>ndlType\<close>: \<open>forget\<close> resets the field in every
  configuration of the store (those of the models, and those the compartments hold), and
  a method is \<open>blind\<close> when it computes on the store without the field what it computes
  on the store, the field apart.
\<close>

definition forget_config :: "BuhlmannConfig \<Rightarrow> BuhlmannConfig" where
  "forget_config cfg = cfg\<lparr>ndlTypeValue := NDL_Actual\<rparr>"

definition forget_comp :: "Compartment \<Rightarrow> Compartment" where
  "forget_comp c = c\<lparr>modelConfig := forget_config (modelConfig c)\<rparr>"

definition forget :: "heap \<Rightarrow> heap" where
  "forget h =
     h\<lparr>models := (\<lambda>a. (models h a)\<lparr>configuration := forget_config (configuration (models h a))\<rparr>),
       comps := (\<lambda>c. forget_comp (comps h c))\<rparr>"

fun forget_out :: "'a outcome \<Rightarrow> 'a outcome" where
  "forget_out (Ret x h) = Ret x (forget h)"
| "forget_out (Throw e h) = Throw e (forget h)"

definition blind :: "(addr \<Rightarrow> heap \<Rightarrow> 'a outcome option) \<Rightarrow> bool" where
  "blind q \<longleftrightarrow> (\<forall>a h. q a (forget h) = map_option forget_out (q a h))"

text \<open>
  A dive: the segments a client records on a model, through \<open>record\<close>, \<open>recordTravel\<close>
  and \<open>recordTravelWithRate\<close>, one after the other. A call that throws leaves the store as
  it is at the throw, and the client goes on with the next segment. \<open>ndl_after\<close> is the
  result of \<open>ndl\<close> on a model constructed with a configuration, after a dive.
\<close>

datatype segment =
    Record Depth Time Gas
  | Travel Depth Time Gas
  | TravelWithRate Depth number Gas

fun record_segment :: "addr \<Rightarrow> segment \<Rightarrow> heap \<Rightarrow> unit outcome option" where
  "record_segment a (Record d t g) h = record_model a d t g h"
| "record_segment a (Travel d t g) h = recordTravel a d t g h"
| "record_segment a (TravelWithRate d rate g) h = recordTravelWithRate a d rate g h"

fun dive :: "addr \<Rightarrow> segment list \<Rightarrow> heap \<Rightarrow> heap option" where
  "dive a [] h = Some h"
| "dive a (sg # sgs) h =
     (case record_segment a sg h of
        None \<Rightarrow> None
      | Some out \<Rightarrow> dive a sgs (heap_of out))"

fun result :: "'a outcome \<Rightarrow> error + 'a" where
  "result (Ret x h) = Inr x"
| "result (Throw e h) = Inl e"

definition ndl_after :: "BuhlmannConfig \<Rightarrow> segment list \<Rightarrow> (error + Time) option" where
  "ndl_after cfg sgs =
     (case BuhlmannModel_new cfg emptyHeap of
        None \<Rightarrow> None
      | Some (Throw e h) \<Rightarrow> Some (Inl e)
      | Some (Ret a h) \<Rightarrow>
          (case dive a sgs h of
             None \<Rightarrow> None
           | Some h1 \<Rightarrow> map_option result (ndl a h1)))"

section \<open>Lemmas\<close>

lemma andThen_simps [simp]:
  "andThen None f = None"
  "andThen (Some (Throw e h)) f = Some (Throw e h)"
  "andThen (Some (Ret x h)) f = f x h"
  "andThen (return x h) f = f x h"
  "andThen (throw e h) f = throw e h"
  by (simp_all add: andThen_def return_def throw_def)

lemma andThenE:
  assumes "andThen m f = Some out"
  obtains (thrown) e h where "m = Some (Throw e h)" "out = Throw e h"
        | (returned) x h where "m = Some (Ret x h)" "f x h = Some out"
  using assms unfolding andThen_def by (auto split: option.splits outcome.splits)

lemma return_eq [simp]: "(return x h = Some out) = (out = Ret x h)"
  by (auto simp: return_def)

lemma throw_eq [simp]: "(throw e h = Some out) = (out = Throw e h)"
  by (auto simp: throw_def)

lemma pres_refl [simp]: "pres N h h"
  by (simp add: pres_def)

lemma keeps_refl [simp]: "keeps b h h"
  by (simp add: keeps_def)

lemma core_refl [simp]: "core b h h"
  by (simp add: core_def)

lemma core_keeps: "core b h h' \<Longrightarrow> keeps b h h'"
  by (simp add: core_def)

lemma core_trans: "core b h h1 \<Longrightarrow> core b h1 h2 \<Longrightarrow> core b h h2"
  by (auto simp: core_def keeps_def)

lemma pres_trans: "pres N h h1 \<Longrightarrow> pres N h1 h2 \<Longrightarrow> pres N h h2"
  by (auto simp: pres_def)

lemma keeps_trans: "keeps b h h1 \<Longrightarrow> keeps b h1 h2 \<Longrightarrow> keeps b h h2"
  by (auto simp: keeps_def)

lemma pres_mono: "pres N h h' \<Longrightarrow> M \<le> N \<Longrightarrow> pres M h h'"
  by (auto simp: pres_def)

lemma own_step: "own N h b \<Longrightarrow> pres N h h' \<Longrightarrow> keeps b h h' \<Longrightarrow> own N h' b"
  by (fastforce simp: own_def pres_def keeps_def)

lemma own_weaken: "own N h b \<Longrightarrow> own 0 h b"
  by (auto simp: own_def)

lemma frame_core: "own N h b \<Longrightarrow> pres (nxt h) h h' \<Longrightarrow> core b h h'"
  by (auto simp: own_def pres_def keeps_def core_def)

lemma frame_keeps: "own N h b \<Longrightarrow> pres (nxt h) h h' \<Longrightarrow> keeps b h h'"
  using frame_core core_keeps by blast

lemma query_step:
  assumes "query_ok q" "own N h b" "q b h = Some out"
  shows "pres N h (heap_of out) \<and> core b h (heap_of out)"
proof -
  have p: "pres (nxt h) h (heap_of out)"
    using assms own_weaken unfolding query_ok_def by blast
  have "N \<le> nxt h" using assms(2) by (auto simp: own_def)
  then show ?thesis using p frame_core[OF assms(2) p] pres_mono by blast
qed

lemma own_core: "own N h b \<Longrightarrow> pres N h h' \<Longrightarrow> core b h h' \<Longrightarrow> own N h' b"
  using own_step core_keeps by blast

lemma set_state_pres: "N \<le> b \<Longrightarrow> pres N h (set_state b f h)"
  by (auto simp: pres_def set_state_def)

lemma set_comp_pres: "N \<le> c \<Longrightarrow> pres N h (set_comp c v h)"
  by (auto simp: pres_def set_comp_def)

lemma set_comp_core [simp]: "core b h (set_comp c v h)"
  by (auto simp: core_def keeps_def set_comp_def)

lemma recalculateEach_models [simp]: "models (recalculateEach cs r g sp h) = models h"
  by (induction cs arbitrary: h) (auto simp: set_comp_def)

lemma recalculateEach_oxs [simp]: "oxs (recalculateEach cs r g sp h) = oxs h"
  by (induction cs arbitrary: h) (auto simp: set_comp_def)

lemma recalculateEach_nxt [simp]: "nxt (recalculateEach cs r g sp h) = nxt h"
  by (induction cs arbitrary: h) (auto simp: set_comp_def)

lemma recalculateEach_other:
  "x \<notin> set cs \<Longrightarrow> comps (recalculateEach cs r g sp h) x = comps h x"
  by (induction cs arbitrary: h) (auto simp: set_comp_def)

lemma recalculateEach_pres:
  "\<forall>c\<in>set cs. N \<le> c \<Longrightarrow> pres N h (recalculateEach cs r g sp h)"
  unfolding pres_def by (auto intro!: recalculateEach_other)

lemma recalculateEach_core [simp]: "core b h (recalculateEach cs r g sp h)"
  by (auto simp: core_def keeps_def)

lemma leadingLoop_mem: "leadingLoop h l cs \<in> insert l (set cs)"
  by (induction cs arbitrary: l) auto

lemma leadingComp_mem: "leadingComp a h = Some lc \<Longrightarrow> lc \<in> set (compartments (models h a))"
  using leadingLoop_mem by (fastforce simp: leadingComp_def split: list.splits)

lemma calcMaxSlopedGF_with_step:
  assumes "query_ok cl" "own N h b" "calcMaxSlopedGF_with cl b d h = Some out"
  shows "pres N h (heap_of out) \<and> core b h (heap_of out)"
  using assms(3) unfolding calcMaxSlopedGF_with_def
proof (cases rule: andThenE)
  case (thrown e h1)
  then show ?thesis using query_step[OF assms(1,2)] by fastforce
next
  case (returned x h1)
  have q: "pres N h h1 \<and> core b h h1" using query_step[OF assms(1,2) returned(1)] by simp
  have o: "own N h1 b" using own_core assms(2) q by blast
  then have nb: "N \<le> b" by (simp add: own_def)
  have "pres N h1 (heap_of out) \<and> core b h1 (heap_of out)"
    using returned(2) nb
    by (auto simp: Let_def pres_def core_def keeps_def set_state_def
          split: if_splits option.splits)
  then show ?thesis using q pres_trans core_trans by blast
qed

lemma recalculateCompartments_with_step:
  assumes "query_ok cl" "own N h b" "recalculateCompartments_with cl b r h = Some out"
  shows "pres N h (heap_of out) \<and> core b h (heap_of out)"
proof -
  let ?cfg = "configuration (models h b)"
  let ?h1 = "recalculateEach (compartments (models h b)) r (gfHigh ?cfg) (surfacePressureValue ?cfg) h"
  have p1: "pres N h ?h1" "core b h ?h1"
    using assms(2) by (auto simp: own_def intro!: recalculateEach_pres)
  have o1: "own N ?h1 b" using own_core[OF assms(2) p1] .
  show ?thesis
  proof (cases "neq (gfHigh ?cfg) (gfLow ?cfg)")
    case True
    then show ?thesis using assms(3) p1 by (simp add: recalculateCompartments_with_def Let_def)
  next
    case False
    then have "andThen (calcMaxSlopedGF_with cl b (rd_depth r) ?h1) (\<lambda>maxGf h2.
                case leadingComp b h2 of
                  None \<Rightarrow> throw TypeError h2
                | Some lc \<Rightarrow>
                    return ()
                      (set_comp lc
                         (Compartment_recalculate (comps h2 lc) (r\<lparr>rd_time := Time_zero\<rparr>) maxGf
                            (surfacePressureValue (configuration (models h2 b)))) h2)) = Some out"
      using assms(3) by (simp add: recalculateCompartments_with_def Let_def)
    then show ?thesis
    proof (cases rule: andThenE)
      case (thrown e h2)
      have "pres N ?h1 h2 \<and> core b ?h1 h2"
        using calcMaxSlopedGF_with_step[OF assms(1) o1 thrown(1)] by simp
      with p1 show ?thesis unfolding thrown(2) heap_of.simps
        using pres_trans core_trans by blast
    next
      case (returned maxGf h2)
      have p2: "pres N ?h1 h2 \<and> core b ?h1 h2"
        using calcMaxSlopedGF_with_step[OF assms(1) o1 returned(1)] by simp
      have o2: "own N h2 b" using own_core o1 p2 by blast
      have "pres N h2 (heap_of out) \<and> core b h2 (heap_of out)"
      proof (cases "leadingComp b h2")
        case None
        then show ?thesis using returned(2) by simp
      next
        case (Some lc)
        then have "N \<le> lc" using leadingComp_mem o2 by (fastforce simp: own_def)
        then show ?thesis using returned(2) Some by (auto simp: set_comp_pres)
      qed
      then show ?thesis using p1 p2 pres_trans core_trans by blast
    qed
  qed
qed

lemma recalculateOxTox_step:
  "own N h b \<Longrightarrow> pres N h (recalculateOxTox b r h) \<and> core b h (recalculateOxTox b r h)"
  by (auto simp: own_def pres_def core_def keeps_def recalculateOxTox_def Let_def)

lemma recalculate_with_step:
  assumes "query_ok cl" "own N h b" "recalculate_with cl b r h = Some out"
  shows "pres N h (heap_of out) \<and> core b h (heap_of out)"
  using assms(3) unfolding recalculate_with_def
proof (cases rule: andThenE)
  case (thrown e h1)
  then show ?thesis using recalculateCompartments_with_step[OF assms(1,2)] by fastforce
next
  case (returned x h1)
  have p1: "pres N h h1 \<and> core b h h1"
    using recalculateCompartments_with_step[OF assms(1,2) returned(1)] by simp
  have o1: "own N h1 b" using own_core assms(2) p1 by blast
  have "pres N h1 (heap_of out) \<and> core b h1 (heap_of out)"
    using returned(2) recalculateOxTox_step[OF o1] by (auto split: if_splits)
  then show ?thesis using p1 pres_trans core_trans by blast
qed

lemma validateDepth_heap: "validateDepth d h = Some out \<Longrightarrow> heap_of out = h"
  by (auto simp: validateDepth_def split: if_splits)

lemma record_with_step:
  assumes "query_ok cl" "own N h b" "record_with cl b d t g h = Some out"
  shows "pres N h (heap_of out) \<and> keeps b h (heap_of out)"
  using assms(3) unfolding record_with_def
proof (cases rule: andThenE)
  case (thrown e h1)
  then show ?thesis using validateDepth_heap by fastforce
next
  case (returned x h0)
  then have [simp]: "h0 = h" using validateDepth_heap by fastforce
  let ?h3 = "set_state b (\<lambda>s. s\<lparr>time := nadd (time s) t\<rparr>)
              (set_state b (\<lambda>s. s\<lparr>gas := g\<rparr>) (set_state b (\<lambda>s. s\<lparr>depth := d\<rparr>) h))"
  have nb: "N \<le> b" using assms(2) by (simp add: own_def)
  have p: "pres N h ?h3 \<and> keeps b h ?h3"
    using nb by (auto simp: pres_def keeps_def set_state_def)
  have o: "own N ?h3 b" using own_step assms(2) p by blast
  have "recalculate_with cl b \<lparr>rd_depth = d, rd_time = t, rd_gas = g\<rparr> ?h3 = Some out"
    using returned(2) by (simp add: Let_def)
  from recalculate_with_step[OF assms(1) o this] show ?thesis
    using p pres_trans keeps_trans core_keeps by blast
qed

lemma travelLoop_step_aux:
  assumes "travelLoop cl b secs distRate g i cd h = Some out"
  shows "query_ok cl \<longrightarrow> (\<forall>N. own N h b \<longrightarrow> pres N h (heap_of out) \<and> keeps b h (heap_of out))"
proof (rule travelLoop.raw_induct[where P = "\<lambda>cl b secs distRate g i cd h out.
         query_ok cl \<longrightarrow> (\<forall>N. own N h b \<longrightarrow> pres N h (heap_of out) \<and> keeps b h (heap_of out))",
         OF _ assms])
  fix travelLoop' cl b secs distRate g i cd h out
  assume IH: "\<And>cl b secs distRate g i cd h out. travelLoop' cl b secs distRate g i cd h = Some out \<Longrightarrow>
           query_ok cl \<longrightarrow> (\<forall>N. own N h b \<longrightarrow> pres N h (heap_of out) \<and> keeps b h (heap_of out))"
    and body: "(if nlt (Fin (real i)) secs
        then let h1 = set_state b (\<lambda>s. s\<lparr>time := nadd (time s) (Time_fromSeconds (Fin 1))\<rparr>) h;
                 currentDepth1 = nadd cd distRate;
                 r = \<lparr>rd_depth = currentDepth1, rd_time = Time_fromSeconds (Fin 1), rd_gas = g\<rparr>
             in andThen (recalculate_with cl b r h1)
                  (\<lambda>_ h2. travelLoop' cl b secs distRate g (i + 1) currentDepth1 h2)
        else return () h) = Some out"
  show "query_ok cl \<longrightarrow> (\<forall>N. own N h b \<longrightarrow> pres N h (heap_of out) \<and> keeps b h (heap_of out))"
  proof (intro impI allI)
    fix N assume q: "query_ok cl" and o: "own N h b"
    show "pres N h (heap_of out) \<and> keeps b h (heap_of out)"
    proof (cases "nlt (Fin (real i)) secs")
      case False
      then show ?thesis using body by simp
    next
      case True
      let ?h1 = "set_state b (\<lambda>s. s\<lparr>time := nadd (time s) (Time_fromSeconds (Fin 1))\<rparr>) h"
      have nb: "N \<le> b" using o by (simp add: own_def)
      have p1: "pres N h ?h1 \<and> keeps b h ?h1"
        using nb by (auto simp: pres_def keeps_def set_state_def)
      have o1: "own N ?h1 b" using own_step o p1 by blast
      from body True have
        "andThen (recalculate_with cl b \<lparr>rd_depth = nadd cd distRate, rd_time = Time_fromSeconds (Fin 1), rd_gas = g\<rparr> ?h1)
           (\<lambda>_ h2. travelLoop' cl b secs distRate g (i + 1) (nadd cd distRate) h2) = Some out"
        by (simp add: Let_def)
      then show ?thesis
      proof (cases rule: andThenE)
        case (thrown e h2)
        then show ?thesis
          using recalculate_with_step[OF q o1 thrown(1)] p1 pres_trans keeps_trans core_keeps
          by fastforce
      next
        case (returned x h2)
        have p2: "pres N ?h1 h2 \<and> keeps b ?h1 h2"
          using recalculate_with_step[OF q o1 returned(1)] core_keeps by simp
        have o2: "own N h2 b" using own_step o1 p2 by blast
        from IH[OF returned(2)] q o2 show ?thesis
          using p1 p2 pres_trans keeps_trans by blast
      qed
    qed
  qed
qed

lemma travelLoop_step:
  assumes "query_ok cl" "travelLoop cl b secs distRate g i cd h = Some out" "own N h b"
  shows "pres N h (heap_of out) \<and> keeps b h (heap_of out)"
  using travelLoop_step_aux[OF assms(2)] assms(1,3) by blast

lemma recordTravel_with_step:
  assumes "query_ok cl" "own N h b" "recordTravel_with cl b target t g h = Some out"
  shows "pres N h (heap_of out) \<and> keeps b h (heap_of out)"
  using assms(3) unfolding recordTravel_with_def
proof (cases rule: andThenE)
  case (thrown e h1)
  then show ?thesis using validateDepth_heap by fastforce
next
  case (returned x h0)
  then have [simp]: "h0 = h" using validateDepth_heap by fastforce
  let ?h1 = "set_state b (\<lambda>s. s\<lparr>gas := g\<rparr>) h"
  have nb: "N \<le> b" using assms(2) by (simp add: own_def)
  have p1: "pres N h ?h1 \<and> keeps b h ?h1"
    using nb by (auto simp: pres_def keeps_def set_state_def)
  have o1: "own N ?h1 b" using own_step assms(2) p1 by blast
  from returned(2) show ?thesis unfolding Let_def
  proof (cases rule: andThenE)
    case (thrown e h2)
    then show ?thesis
      using travelLoop_step[OF assms(1) _ o1] p1 pres_trans keeps_trans by fastforce
  next
    case (returned y h2)
    have p2: "pres N ?h1 h2 \<and> keeps b ?h1 h2"
      using travelLoop_step[OF assms(1) _ o1] returned(1) by fastforce
    have "pres N h2 (heap_of out) \<and> keeps b h2 (heap_of out)"
      using returned(2) nb by (auto simp: pres_def keeps_def set_state_def)
    then show ?thesis using p1 p2 pres_trans keeps_trans by blast
  qed
qed

lemma recordTravelWithRate_with_step:
  assumes "query_ok cl" "own N h b" "recordTravelWithRate_with cl b target rate g h = Some out"
  shows "pres N h (heap_of out) \<and> keeps b h (heap_of out)"
  using assms(3) recordTravel_with_step[OF assms(1,2)]
  unfolding recordTravelWithRate_with_def Let_def by blast

lemma createCompartments_facts:
  "createCompartments i ps cfg h = (cs, h') \<Longrightarrow>
     nxt h \<le> nxt h' \<and> models h' = models h \<and> oxs h' = oxs h \<and>
     (\<forall>x<nxt h. comps h' x = comps h x) \<and>
     (\<forall>c\<in>set cs. nxt h \<le> c \<and> c < nxt h') \<and> distinct cs"
proof (induction ps arbitrary: i h cs h')
  case Nil
  then show ?case by simp
next
  case (Cons p ps)
  let ?h1 = "h\<lparr>comps := (comps h)(nxt h := Compartment_new (i + 1) p cfg), nxt := Suc (nxt h)\<rparr>"
  obtain cs1 h1' where r: "createCompartments (i + 1) ps cfg ?h1 = (cs1, h1')"
    by (cases "createCompartments (i + 1) ps cfg ?h1") auto
  from Cons.prems r have e: "cs = nxt h # cs1" "h' = h1'"
    by (auto simp: Let_def)
  from Cons.IH[OF r] show ?case unfolding e by fastforce
qed

lemma cloneEach_facts:
  "cloneEach cs h = (cs', h') \<Longrightarrow>
     nxt h \<le> nxt h' \<and> models h' = models h \<and> oxs h' = oxs h \<and>
     (\<forall>x<nxt h. comps h' x = comps h x) \<and>
     (\<forall>c\<in>set cs'. nxt h \<le> c \<and> c < nxt h') \<and> distinct cs' \<and> length cs' = length cs"
proof (induction cs arbitrary: h cs' h')
  case Nil
  then show ?case by simp
next
  case (Cons c cs)
  let ?h1 = "h\<lparr>comps := (comps h)(nxt h := Compartment_clone (comps h c)), nxt := Suc (nxt h)\<rparr>"
  obtain cs1 h1' where r: "cloneEach cs ?h1 = (cs1, h1')"
    by (cases "cloneEach cs ?h1") auto
  from Cons.prems r have e: "cs' = nxt h # cs1" "h' = h1'"
    by (auto simp: Let_def)
  from Cons.IH[OF r] show ?case unfolding e by fastforce
qed

lemma construct_step:
  "pres (nxt h) h (snd (construct_model cfg h)) \<and> own (nxt h) (snd (construct_model cfg h)) (fst (construct_model cfg h)) \<and>
   fst (construct_model cfg h) = nxt h \<and>
   configuration (models (snd (construct_model cfg h)) (nxt h)) = cfg \<and>
   \<not> sim (models (snd (construct_model cfg h)) (nxt h))"
proof -
  let ?h2 = "h\<lparr>nxt := Suc (nxt h), oxs := (oxs h)(Suc (nxt h) := OxTox_default), nxt := Suc (Suc (nxt h))\<rparr>"
  obtain cs h3 where r: "createCompartments 0 ZHL_16C_N2_16A_HE_VALUES cfg ?h2 = (cs, h3)"
    by (cases "createCompartments 0 ZHL_16C_N2_16A_HE_VALUES cfg ?h2") auto
  note f = createCompartments_facts[OF r]
  from r show ?thesis
    using f by (auto simp: construct_model_def Let_def pres_def own_def)
qed

lemma BuhlmannModel_new_step:
  assumes "BuhlmannModel_new cfg h = Some out"
  shows "(\<exists>e. out = Throw e h) \<or>
         (\<exists>a h'. out = Ret a h' \<and> pres (nxt h) h h' \<and> own (nxt h) h' a \<and>
                  configuration (models h' a) = cfg \<and> validate cfg = None)"
proof (cases "validate cfg")
  case (Some e)
  then show ?thesis using assms by (simp add: BuhlmannModel_new_def)
next
  case None
  then show ?thesis using assms construct_step[of h cfg]
    by (auto simp: BuhlmannModel_new_def)
qed

lemma copyInto_step:
  assumes "own N h cloned"
  shows "pres N h (copyInto a cloned h) \<and> own N (copyInto a cloned h) cloned \<and>
         sim (models (copyInto a cloned h) cloned) \<and>
         configuration (models (copyInto a cloned h) cloned) = configuration (models h cloned)"
proof -
  let ?ox = "nxt h"
  let ?st = "\<lparr>depth = depth (state (models h a)), time = time (state (models h a)),
              gas = gas (state (models h a)), gfLowDepth = gfLowDepth (state (models h a)),
              oxTox = ?ox\<rparr>"
  let ?h1 = "h\<lparr>oxs := (oxs h)(?ox := OxTox_clone (oxs h (oxTox (state (models h a))))), nxt := Suc ?ox\<rparr>"
  let ?h2 = "?h1\<lparr>models := (models ?h1)(cloned := (models ?h1 cloned)\<lparr>state := ?st\<rparr>)\<rparr>"
  obtain cs h3 where r: "cloneEach (compartments (models h a)) ?h2 = (cs, h3)"
    by (cases "cloneEach (compartments (models h a)) ?h2") auto
  note f = cloneEach_facts[OF r]
  have nb: "N \<le> cloned" "cloned < nxt h" using assms by (auto simp: own_def)
  show ?thesis
    using f nb r by (auto simp: copyInto_def Let_def pres_def own_def)
qed

lemma fork_step:
  assumes "fork a h = Some out"
  shows "(\<exists>e. out = Throw e h) \<or>
         (\<exists>s h'. out = Ret s h' \<and> pres (nxt h) h h' \<and> own (nxt h) h' s \<and> sim (models h' s) \<and>
                  configuration (models h' s) = configuration (models h a) \<and>
                  validate (configuration (models h a)) = None)"
  using assms unfolding fork_def
proof (cases rule: andThenE)
  case (thrown e h1)
  then show ?thesis using BuhlmannModel_new_step by fastforce
next
  case (returned s h1)
  from BuhlmannModel_new_step[OF returned(1)]
  have n: "pres (nxt h) h h1" "own (nxt h) h1 s" "configuration (models h1 s) = configuration (models h a)"
    "validate (configuration (models h a)) = None"
    by auto
  from copyInto_step[OF n(2), of a] n returned(2) show ?thesis
    using pres_trans by auto
qed

lemma BuhlmannConfig_clone_id [simp]: "BuhlmannConfig_clone cfg = cfg"
  by (simp add: BuhlmannConfig_clone_def)

lemma clone_fork: "clone a h = fork a h"
  by (simp add: clone_def fork_def)

lemma actualCeiling_heap: "actualCeiling a h = Some out \<Longrightarrow> heap_of out = h"
  by (auto simp: actualCeiling_def split: option.splits)

lemma ceilingSim_heap: "ceilingSim a h = Some out \<Longrightarrow> heap_of out = h"
  unfolding ceilingSim_def
  by (erule andThenE) (use actualCeiling_heap in fastforce)+

lemma ceilingSim_query_ok: "query_ok ceilingSim"
  unfolding query_ok_def using ceilingSim_heap by fastforce

lemma adaptiveLoop_step:
  "adaptiveLoop cfg s simGas it c h = Some out \<Longrightarrow> own N h s \<Longrightarrow>
     pres N h (heap_of out) \<and> keeps s h (heap_of out)"
proof (induction cfg s simGas it c h arbitrary: out rule: adaptiveLoop.induct)
  case (1 cfg s simGas it c h)
  let ?simDepth = "depth (state (models h s))"
  show ?case
  proof (cases "nle ?simDepth (Fin 0) \<or> nle ?simDepth c")
    case True
    then show ?thesis using "1.prems"(1) by (subst (asm) adaptiveLoop.simps) (auto simp: Let_def)
  next
    case False
    from "1.prems"(1) False have
      "andThen (recordTravelWithRate_with ceilingSim s c (decoAscentRateValue cfg) simGas h) (\<lambda>_ h1.
             andThen (ceilingSim s h1) (\<lambda>c h2.
               if it + 1 > 50 then return (c, it + 1) h2
               else adaptiveLoop cfg s simGas (it + 1) c h2)) = Some out"
      by (subst (asm) adaptiveLoop.simps) (simp add: Let_def)
    then show ?thesis
    proof (cases rule: andThenE)
      case (thrown e h1)
      then show ?thesis
        using recordTravelWithRate_with_step[OF ceilingSim_query_ok "1.prems"(2) thrown(1)] by simp
    next
      case (returned x h1)
      note rt = returned
      have p1: "pres N h h1 \<and> keeps s h h1"
        using recordTravelWithRate_with_step[OF ceilingSim_query_ok "1.prems"(2) returned(1)] by simp
      have o1: "own N h1 s" using own_step "1.prems"(2) p1 by blast
      from rt(2) show ?thesis
      proof (cases rule: andThenE)
        case (thrown e h2)
        then show ?thesis using ceilingSim_heap[OF thrown(1)] p1 by simp
      next
        case (returned c2 h2)
        have e: "h2 = h1" using ceilingSim_heap[OF returned(1)] by simp
        show ?thesis
        proof (cases "it + 1 > 50")
          case True
          then show ?thesis using returned(2) p1 e by simp
        next
          case False2: False
          then have l: "adaptiveLoop cfg s simGas (it + 1) c2 h2 = Some out"
            using returned(2) by simp
          have o2: "own N h2 s" using o1 e by simp
          have "pres N h2 (heap_of out) \<and> keeps s h2 (heap_of out)"
            using "1.IH"[OF refl False rt(1) returned(1) False2 l o2] .
          then show ?thesis using p1 e pres_trans keeps_trans by blast
        qed
      qed
    qed
  qed
qed

lemma ceiling_step:
  assumes "own 0 h a" "ceiling_model a h = Some out"
  shows "pres (nxt h) h (heap_of out)"
proof -
  let ?cfg = "configuration (models h a)"
  let ?ct = "if sim (models h a) then Actual else ceilingTypeValue ?cfg"
  from assms(2) have
    "andThen
           (case ?ct of
              Actual \<Rightarrow> actualCeiling a h
            | Adaptive \<Rightarrow>
                andThen (fork a h) (\<lambda>simModel h1.
                  let simGas = gas (state (models h1 simModel))
                  in andThen (ceilingSim simModel h1) (\<lambda>calculatedCeiling h2.
                       andThen (adaptiveLoop ?cfg simModel simGas 0 calculatedCeiling h2)
                         (\<lambda>r h3. return (fst r) h3))))
           (\<lambda>c h4. return (roundCeiling ?cfg c) h4) = Some out"
    by (simp add: ceiling_model_def Let_def)
  then have "\<exists>out'. (case ?ct of
              Actual \<Rightarrow> actualCeiling a h
            | Adaptive \<Rightarrow>
                andThen (fork a h) (\<lambda>simModel h1.
                  let simGas = gas (state (models h1 simModel))
                  in andThen (ceilingSim simModel h1) (\<lambda>calculatedCeiling h2.
                       andThen (adaptiveLoop ?cfg simModel simGas 0 calculatedCeiling h2)
                         (\<lambda>r h3. return (fst r) h3)))) = Some out' \<and> heap_of out' = heap_of out"
    by (cases rule: andThenE) auto
  then obtain out' where inner: "(case ?ct of
              Actual \<Rightarrow> actualCeiling a h
            | Adaptive \<Rightarrow>
                andThen (fork a h) (\<lambda>simModel h1.
                  let simGas = gas (state (models h1 simModel))
                  in andThen (ceilingSim simModel h1) (\<lambda>calculatedCeiling h2.
                       andThen (adaptiveLoop ?cfg simModel simGas 0 calculatedCeiling h2)
                         (\<lambda>r h3. return (fst r) h3)))) = Some out'"
    and ho: "heap_of out' = heap_of out" by blast
  show ?thesis
  proof (cases ?ct)
    case Actual
    then show ?thesis using inner ho actualCeiling_heap by fastforce
  next
    case Adaptive
    with inner have
      "andThen (fork a h) (\<lambda>simModel h1.
                  let simGas = gas (state (models h1 simModel))
                  in andThen (ceilingSim simModel h1) (\<lambda>calculatedCeiling h2.
                       andThen (adaptiveLoop ?cfg simModel simGas 0 calculatedCeiling h2)
                         (\<lambda>r h3. return (fst r) h3))) = Some out'"
      by simp
    then have "pres (nxt h) h (heap_of out')"
    proof (cases rule: andThenE)
      case (thrown e h1)
      then show ?thesis using fork_step by fastforce
    next
      case (returned s h1)
      from fork_step[OF returned(1)]
      have f: "pres (nxt h) h h1" "own (nxt h) h1 s" by auto
      from returned(2) show ?thesis unfolding Let_def
      proof (cases rule: andThenE)
        case (thrown e h2)
        then show ?thesis using ceilingSim_heap f by fastforce
      next
        case (returned c h2)
        then have e: "h2 = h1" using ceilingSim_heap by fastforce
        from returned(2) show ?thesis
        proof (cases rule: andThenE)
          case (thrown e h3)
          then show ?thesis using adaptiveLoop_step[OF _ f(2)] f(1) e pres_trans by fastforce
        next
          case (returned r h3)
          then show ?thesis using adaptiveLoop_step[OF _ f(2)] f(1) e pres_trans by fastforce
        qed
      qed
    qed
    then show ?thesis using ho by simp
  qed
qed

lemma ceiling_query_ok: "query_ok ceiling_model"
  unfolding query_ok_def using ceiling_step by blast

lemmas record_model_step = record_with_step[OF ceiling_query_ok, folded record_model_def]
lemmas recordTravel_step = recordTravel_with_step[OF ceiling_query_ok, folded recordTravel_def]
lemmas recordTravelWithRate_step =
  recordTravelWithRate_with_step[OF ceiling_query_ok, folded recordTravelWithRate_def]

lemma nextDecoAction_step:
  assumes "own 0 h s" "nextDecoAction a s gasMixes h = Some out"
  shows "pres (nxt h) h (heap_of out)"
proof (cases "nle (depth (state (models h s))) (Fin 0)")
  case True
  then show ?thesis using assms(2) by (simp add: nextDecoAction_def Let_def)
next
  case False
  then have "\<exists>f. andThen (ceiling_model s h) f = Some out \<and> (\<forall>x h1 o1. f x h1 = Some o1 \<longrightarrow> heap_of o1 = h1)"
    using assms(2) unfolding nextDecoAction_def Let_def
    by (intro exI conjI, simp) (auto split: if_splits)
  then obtain f where f: "andThen (ceiling_model s h) f = Some out"
    "\<And>x h1 o1. f x h1 = Some o1 \<Longrightarrow> heap_of o1 = h1" by blast
  from f(1) show ?thesis
    by (cases rule: andThenE) (use ceiling_step[OF assms(1)] f(2) in fastforce)+
qed

lemma query_pres:
  assumes "own N h b" "pres (nxt h) h h'"
  shows "pres N h h' \<and> keeps b h h'"
proof -
  have "N \<le> nxt h" using assms(1) by (auto simp: own_def)
  then show ?thesis using assms frame_keeps pres_mono by blast
qed

lemma decoStage_step:
  assumes "own N h s" "decoStage a s pre act sw ceil stages h = Some out"
  shows "pres N h (heap_of out) \<and> keeps s h (heap_of out)"
proof (cases act)
  case Ascent
  with assms(2) show ?thesis unfolding decoStage_def Let_def
    by (auto elim!: andThenE dest: recordTravelWithRate_step[OF assms(1)])
next
  case DecoStop
  with assms(2) show ?thesis unfolding decoStage_def Let_def
    by (auto elim!: andThenE dest: record_model_step[OF assms(1)])
next
  case GasSwitch
  show ?thesis
  proof (cases sw)
    case None
    with assms(2) GasSwitch show ?thesis by (simp add: decoStage_def Let_def)
  next
    case (Some switchGas)
    let ?mod = "maxOperatingDepth switchGas (Fin 1.6)"
    let ?rate = "decoAscentRateValue (configuration (models h a))"
    let ?first = "(if ngt (depth pre) ?mod
                        then andThen (recordTravelWithRate s ?mod ?rate (gas pre) h)
                               (\<lambda>_ h1.
                               let postAscentState = diveState s h1
                               in return
                                    (stages @ [\<lparr>stageType = Ascent, startDepth = depth pre,
                                                endDepth = depth postAscentState,
                                                duration = nsub (time postAscentState) (time pre),
                                                stage_gas = gas pre\<rparr>]) h1)
                        else return stages h)"
    let ?rest = "(\<lambda>stages1 h2.
                         andThen (record_model s (depth (diveState s h2)) Time_zero
                                    switchGas h2) (\<lambda>_ h3.
                           let postSwitchState = diveState s h3
                           in return
                                (registerDecoStage stages1
                                   \<lparr>stageType = GasSwitch, startDepth = depth postSwitchState,
                                    endDepth = depth postSwitchState, duration = Time_zero,
                                    stage_gas = switchGas\<rparr>) h3))"
    have b: "andThen ?first ?rest = Some out"
      using assms(2) unfolding decoStage_def GasSwitch Some Let_def
      by (simp only: DecoStageType.case option.case)
    have fst_ok: "pres N h (heap_of o1) \<and> keeps s h (heap_of o1)" if "?first = Some o1" for o1
      using that unfolding Let_def
      by (auto elim!: andThenE dest: recordTravelWithRate_step[OF assms(1)] split: if_splits)
    from b show ?thesis
    proof (cases rule: andThenE)
      case (thrown e h1)
      then show ?thesis using fst_ok by fastforce
    next
      case (returned st1 h1)
      have p1: "pres N h h1 \<and> keeps s h h1" using fst_ok[OF returned(1)] by simp
      have o1: "own N h1 s" using own_step assms(1) p1 by blast
      have "pres N h1 (heap_of out) \<and> keeps s h1 (heap_of out)"
        using returned(2) unfolding Let_def
        by (auto elim!: andThenE dest: record_model_step[OF o1])
      then show ?thesis using p1 pres_trans keeps_trans by blast
    qed
  qed
qed

lemma decoLoop_step_aux:
  assumes "decoLoop a s gasMixes stages h = Some out"
  shows "\<forall>N. own N h s \<longrightarrow> pres N h (heap_of out) \<and> keeps s h (heap_of out)"
proof (rule decoLoop.raw_induct[where P = "\<lambda>a s gasMixes stages h out.
         \<forall>N. own N h s \<longrightarrow> pres N h (heap_of out) \<and> keeps s h (heap_of out)", OF _ assms])
  fix decoLoop' a s gasMixes stages h out
  assume IH: "\<And>a s gasMixes stages h out. decoLoop' a s gasMixes stages h = Some out \<Longrightarrow>
           \<forall>N. own N h s \<longrightarrow> pres N h (heap_of out) \<and> keeps s h (heap_of out)"
    and body: "andThen (ceiling_model s h) (\<lambda>ceil h1.
       andThen (nextDecoAction a s gasMixes h1) (\<lambda>r h2.
         case fst r of
           None \<Rightarrow> return stages h2
         | Some decoAction \<Rightarrow>
             andThen (decoStage a s (state (models h s)) decoAction (snd r) ceil
                        stages h2) (\<lambda>stages1 h3.
               decoLoop' a s gasMixes stages1 h3))) = Some out"
  show "\<forall>N. own N h s \<longrightarrow> pres N h (heap_of out) \<and> keeps s h (heap_of out)"
  proof (intro allI impI)
    fix N assume o: "own N h s"
    from body show "pres N h (heap_of out) \<and> keeps s h (heap_of out)"
    proof (cases rule: andThenE)
      case (thrown e h1)
      then show ?thesis using query_pres[OF o ceiling_step[OF own_weaken[OF o] thrown(1)]] by simp
    next
      case (returned ceil h1)
      have p1: "pres N h h1 \<and> keeps s h h1"
        using query_pres[OF o ceiling_step[OF own_weaken[OF o] returned(1)]] by simp
      have o1: "own N h1 s" using own_step o p1 by blast
      from returned(2) show ?thesis
      proof (cases rule: andThenE)
        case (thrown e h2)
        then show ?thesis
          using query_pres[OF o1 nextDecoAction_step[OF own_weaken[OF o1] thrown(1)]] p1
            pres_trans keeps_trans by fastforce
      next
        case (returned r h2)
        have p2: "pres N h1 h2 \<and> keeps s h1 h2"
          using query_pres[OF o1 nextDecoAction_step[OF own_weaken[OF o1] returned(1)]] by simp
        have o2: "own N h2 s" using own_step o1 p2 by blast
        show ?thesis
        proof (cases "fst r")
          case None
          then show ?thesis using returned(2) p1 p2 pres_trans keeps_trans by fastforce
        next
          case (Some act)
          with returned(2) have
            "andThen (decoStage a s (state (models h s)) act (snd r) ceil stages h2)
               (\<lambda>stages1 h3. decoLoop' a s gasMixes stages1 h3) = Some out" by simp
          then show ?thesis
          proof (cases rule: andThenE)
            case (thrown e h3)
            have "pres N h2 h3 \<and> keeps s h2 h3"
              using decoStage_step[OF o2 thrown(1)] by simp
            with p1 p2 show ?thesis unfolding thrown(2) heap_of.simps
              using pres_trans keeps_trans by blast
          next
            case (returned st h3)
            have p3: "pres N h2 h3 \<and> keeps s h2 h3"
              using decoStage_step[OF o2 returned(1)] by simp
            have o3: "own N h3 s" using own_step o2 p3 by blast
            from IH[OF returned(2)] o3 have "pres N h3 (heap_of out) \<and> keeps s h3 (heap_of out)"
              by blast
            then show ?thesis using p1 p2 p3 pres_trans keeps_trans by blast
          qed
        qed
      qed
    qed
  qed
qed

lemma deco_step:
  assumes "own 0 h a" "deco a gasMixes h = Some out"
  shows "pres (nxt h) h (heap_of out)"
  using assms(2) unfolding deco_def clone_fork
proof (cases rule: andThenE)
  case (thrown e h1)
  then show ?thesis using fork_step by fastforce
next
  case (returned s h0)
  from fork_step[OF returned(1)]
  have f: "pres (nxt h) h h0" "own (nxt h) h0 s" by auto
  let ?h1 = "h0\<lparr>models := (models h0)(s := (models h0 s)\<lparr>sim := True\<rparr>)\<rparr>"
  have p1: "pres (nxt h) h0 ?h1" using f(2) by (auto simp: pres_def own_def)
  have o1: "own (nxt h) ?h1 s" using f(2) by (auto simp: own_def)
  have "pres (nxt h) ?h1 (heap_of out)"
  proof (cases "length gasMixes = 0 \<or> find (\<lambda>g. Gas_equals g (gas (state (models ?h1 s)))) gasMixes = None")
    case True
    then show ?thesis using returned(2) by (auto simp: Let_def split: if_splits)
  next
    case False
    with returned(2) have
      "\<exists>f. andThen (decoLoop a s gasMixes [] ?h1) f = Some out \<and>
           (\<forall>x h1 o1. f x h1 = Some o1 \<longrightarrow> heap_of o1 = h1)"
      by (intro exI conjI, simp add: Let_def) (auto simp: Let_def)
    then obtain f where f2: "andThen (decoLoop a s gasMixes [] ?h1) f = Some out"
      "\<And>x h1 o1. f x h1 = Some o1 \<Longrightarrow> heap_of o1 = h1" by blast
    from f2(1) show ?thesis
      by (cases rule: andThenE) (use decoLoop_step_aux o1 f2(2) in fastforce)+
  qed
  then show ?thesis using f(1) p1 pres_trans by blast
qed

lemma inDeco_step:
  assumes "own 0 h a" "inDeco a h = Some out"
  shows "pres (nxt h) h (heap_of out)"
proof (cases "ceilingTypeValue (configuration (models h a))")
  case Actual
  with assms(2) have "andThen (ceiling_model a h) (\<lambda>c h1. return (ngt c Depth_zero) h1) = Some out"
    by (simp add: inDeco_def)
  then show ?thesis
    by (cases rule: andThenE) (use ceiling_step[OF assms(1)] in fastforce)+
next
  case Adaptive
  with assms(2) have "andThen (deco a [gas (diveState a h)] h) (\<lambda>runtime h1.
               return (length (decoStages runtime) > 1) h1) = Some out"
    by (simp add: inDeco_def Let_def)
  then show ?thesis
    by (cases rule: andThenE) (use deco_step[OF assms(1)] in fastforce)+
qed

lemma ndlLoop_step:
  "ndlLoop a s interval i h = Some out \<Longrightarrow> own N h s \<Longrightarrow>
     pres N h (heap_of out) \<and> keeps s h (heap_of out)"
proof (induction a s interval i h arbitrary: out rule: ndlLoop.induct)
  case (1 a s interval i h)
  show ?case
  proof (cases "i < NDL_CUT_OFF_MINS")
    case False
    then show ?thesis using "1.prems"(1) by (subst (asm) ndlLoop.simps) simp
  next
    case True
    from "1.prems"(1) True have
      "andThen (record_model s (depth (state (models h a))) interval (gas (state (models h a))) h)
         (\<lambda>_ h1. andThen (inDeco s h1) (\<lambda>d h2.
               if d then return (nmul interval (Fin (real i))) h2
               else ndlLoop a s interval (i + 1) h2)) = Some out"
      by (subst (asm) ndlLoop.simps) simp
    then show ?thesis
    proof (cases rule: andThenE)
      case (thrown e h1)
      then show ?thesis using record_model_step[OF "1.prems"(2) thrown(1)] by simp
    next
      case (returned x h1)
      note rt = returned
      have p1: "pres N h h1 \<and> keeps s h h1"
        using record_model_step[OF "1.prems"(2) returned(1)] by simp
      have o1: "own N h1 s" using own_step "1.prems"(2) p1 by blast
      from rt(2) show ?thesis
      proof (cases rule: andThenE)
        case (thrown e h2)
        then show ?thesis
          using query_pres[OF o1 inDeco_step[OF own_weaken[OF o1] thrown(1)]] p1
            pres_trans keeps_trans by fastforce
      next
        case (returned d h2)
        have p2: "pres N h1 h2 \<and> keeps s h1 h2"
          using query_pres[OF o1 inDeco_step[OF own_weaken[OF o1] returned(1)]] by simp
        have o2: "own N h2 s" using own_step o1 p2 by blast
        show ?thesis
        proof (cases d)
          case True
          then show ?thesis using returned(2) p1 p2 pres_trans keeps_trans by fastforce
        next
          case False
          then have l: "ndlLoop a s interval (i + 1) h2 = Some out" using returned(2) by simp
          from "1.IH"[OF True rt(1) returned(1) False l o2] show ?thesis
            using p1 p2 pres_trans keeps_trans by blast
        qed
      qed
    qed
  qed
qed

lemma ndl_step:
  assumes "own 0 h a" "ndl a h = Some out"
  shows "pres (nxt h) h (heap_of out)"
  using assms(2) unfolding ndl_def
proof (cases rule: andThenE)
  case (thrown e h1)
  then show ?thesis using inDeco_step[OF assms(1)] by fastforce
next
  case (returned d h1)
  have p1: "pres (nxt h) h h1" using inDeco_step[OF assms(1) returned(1)] by simp
  have o1: "own 0 h1 a" using own_step[OF assms(1)] query_pres[OF assms(1) p1] by blast
  show ?thesis
  proof (cases d)
    case True
    then show ?thesis using returned(2) p1 by simp
  next
    case False
    then have "andThen (fork a h1) (\<lambda>simModel h2.
              ndlLoop a simModel (Time_fromMinutes (Fin 1)) 0 h2) = Some out"
      using returned(2) by simp
    then have "pres (nxt h1) h1 (heap_of out)"
    proof (cases rule: andThenE)
      case (thrown e h2)
      then show ?thesis using fork_step by fastforce
    next
      case (returned s h2)
      from fork_step[OF returned(1)] have f: "pres (nxt h1) h1 h2" "own (nxt h1) h2 s" by auto
      from ndlLoop_step[OF returned(2) f(2)] f(1) show ?thesis using pres_trans by blast
    qed
    moreover have "nxt h \<le> nxt h1" using p1 by (simp add: pres_def)
    ultimately show ?thesis using p1 pres_mono pres_trans by blast
  qed
qed

lemma NaN_right [simp]:
  "nadd a NaN = NaN" "nmul a NaN = NaN" "ndiv a NaN = NaN" "nsub a NaN = NaN"
  "nsub NaN a = NaN" "\<not> nlt a NaN" "\<not> nle a NaN" "\<not> neq a NaN" "nmax a NaN = NaN"
  by (cases a; simp add: nsub_def)+

lemma nsub_Fin [simp]: "nsub (Fin x) (Fin y) = Fin (x - y)"
  by (simp add: nsub_def)

lemma npow2_Fin [simp]: "npow (Fin 2) (Fin e) = Fin (2 powr e)"
  by simp

lemma Compartment_recalculate_haldane:
  assumes "heIp c = Fin ph" "n2Ip c = Fin pn"
    and "heht (params c) = Fin hth" "n2ht (params c) = Fin htn" "hth \<noteq> 0" "htn \<noteq> 0"
    and "rd_depth r = Fin d" "rd_time r = Fin t"
    and "hePp (rd_gas r) = Fin fh" "n2Pp (rd_gas r) = Fin fn"
  shows "n2Ip (Compartment_recalculate c r maxGf (Fin ps)) =
           Fin (pn + (fn * (ps / 1000 + d / 10 - 0.0627) - pn) * (1 - 2 powr (- (t / 60) / htn)))"
    and "heIp (Compartment_recalculate c r maxGf (Fin ps)) =
           Fin (ph + (fh * (ps / 1000 + d / 10 - 0.0627) - ph) * (1 - 2 powr (- (t / 60) / hth)))"
    and "totalIp (Compartment_recalculate c r maxGf (Fin ps)) =
           nadd (heIp (Compartment_recalculate c r maxGf (Fin ps)))
                (n2Ip (Compartment_recalculate c r maxGf (Fin ps)))"
    and "params (Compartment_recalculate c r maxGf (Fin ps)) = params c"
  using assms
  by (simp_all add: Compartment_recalculate_def compartmentInertPressure_def
      compartmentPressureDeltaHaldane_def inspiredPartialPressures_def gasPressuresCompound_def
      ALVEOLI_WATER_VAPOR_PRESSURE_def asMinutes_def Let_def del: npow.simps)

lemma createCompartments_models: "models (snd (createCompartments i ps cfg h)) = models h"
  by (induction ps arbitrary: i h) (auto simp: Let_def)

lemma createCompartments_oxs: "oxs (snd (createCompartments i ps cfg h)) = oxs h"
  by (induction ps arbitrary: i h) (auto simp: Let_def)

lemma createCompartments_fst:
  "fst (createCompartments i ps cfg h) = [nxt h ..< nxt h + length ps]"
  by (induction ps arbitrary: i h) (auto simp: Let_def upt_rec)

lemma createCompartments_nxt:
  "nxt (snd (createCompartments i ps cfg h)) = nxt h + length ps"
  by (induction ps arbitrary: i h) (auto simp: Let_def)

lemma createCompartments_below:
  "x < nxt h \<Longrightarrow> comps (snd (createCompartments i ps cfg h)) x = comps h x"
  by (induction ps arbitrary: i h) (auto simp: Let_def)

lemma createCompartments_comps:
  "k < length ps \<Longrightarrow>
   comps (snd (createCompartments i ps cfg h)) (nxt h + k) = Compartment_new (i + k + 1) (ps ! k) cfg"
proof (induction ps arbitrary: i h k)
  case Nil
  then show ?case by simp
next
  case (Cons p ps)
  show ?case
  proof (cases k)
    case 0
    then show ?thesis by (simp add: Let_def createCompartments_below)
  next
    case (Suc k')
    then have "k' < length ps" using Cons.prems by simp
    from Cons.IH[OF this, of "i + 1" "h\<lparr>comps := (comps h)(nxt h := Compartment_new (i + 1) p cfg), nxt := Suc (nxt h)\<rparr>"]
    show ?thesis using Suc by (simp add: Let_def)
  qed
qed

lemma newHeap_model:
  "models (newHeap cfg) 0 =
     \<lparr>configuration = cfg, compartments = [2 ..< 18], state = initialState, sim = False\<rparr>"
  by (simp add: newHeap_def construct_model_def Let_def createCompartments_models createCompartments_fst
      emptyHeap_def ZHL_16C_N2_16A_HE_VALUES_def initialState_def Depth_zero_def Time_zero_def)

lemma newHeap_nxt: "nxt (newHeap cfg) = 18"
  by (simp add: newHeap_def construct_model_def Let_def createCompartments_nxt
      emptyHeap_def ZHL_16C_N2_16A_HE_VALUES_def)

lemma newHeap_comps:
  "k < 16 \<Longrightarrow>
   comps (newHeap cfg) (2 + k) = Compartment_new (k + 1) (ZHL_16C_N2_16A_HE_VALUES ! k) cfg"
proof -
  assume k: "k < 16"
  let ?h2 = "emptyHeap\<lparr>nxt := Suc (nxt emptyHeap),
               oxs := (oxs emptyHeap)(Suc (nxt emptyHeap) := OxTox_default),
               nxt := Suc (Suc (nxt emptyHeap))\<rparr>"
  have l: "length ZHL_16C_N2_16A_HE_VALUES = 16" by (simp add: ZHL_16C_N2_16A_HE_VALUES_def)
  have "comps (snd (createCompartments 0 ZHL_16C_N2_16A_HE_VALUES cfg ?h2)) (nxt ?h2 + k)
        = Compartment_new (0 + k + 1) (ZHL_16C_N2_16A_HE_VALUES ! k) cfg"
    using k l by (intro createCompartments_comps) simp
  then show ?thesis
    by (simp add: newHeap_def construct_model_def Let_def emptyHeap_def)
qed

lemma own_newHeap: "own 0 (newHeap cfg) 0"
  by (simp add: own_def newHeap_model newHeap_nxt initialState_def)

lemmas freshHeap_model = newHeap_model[of BuhlmannConfig_default, folded freshHeap_def]
lemmas freshHeap_comps = newHeap_comps[of _ BuhlmannConfig_default, folded freshHeap_def]
lemmas own_freshHeap = own_newHeap[of BuhlmannConfig_default, folded freshHeap_def]

lemma fresh_ceilings:
  "list_all (\<lambda>p. \<forall>n. Compartment_ceiling (Compartment_new n p BuhlmannConfig_default) = Fin 0)
     ZHL_16C_N2_16A_HE_VALUES"
  by (simp add: ZHL_16C_N2_16A_HE_VALUES_def zhl_def Compartment_ceiling_def Compartment_new_def
      getAirInspiredPartialPressures_def BuhlmannConfig_default_def Depth_zero_def
      minTolerableAmbPressureCalc_def mValue_def weightedZhlParams_def weightedParam_def
      maxGfAdjustedZhlParams_def Let_def)

lemma fresh_fixed:
  "list_all (\<lambda>p. \<forall>n t. Compartment_recalculate (Compartment_new n p BuhlmannConfig_default)
        \<lparr>rd_depth = Fin 0, rd_time = Fin t, rd_gas = Gas_air\<rparr> (Fin 100) (Fin 1013)
        = Compartment_new n p BuhlmannConfig_default)
     ZHL_16C_N2_16A_HE_VALUES"
  by (simp add: ZHL_16C_N2_16A_HE_VALUES_def zhl_def Compartment_recalculate_def Compartment_new_def
      getAirInspiredPartialPressures_def BuhlmannConfig_default_def Depth_zero_def
      minTolerableAmbPressureCalc_def mValue_def weightedZhlParams_def weightedParam_def
      maxGfAdjustedZhlParams_def Let_def compartmentInertPressure_def
      compartmentPressureDeltaHaldane_def inspiredPartialPressures_def gasPressuresCompound_def
      ALVEOLI_WATER_VAPOR_PRESSURE_def asMinutes_def Gas_air_def)

lemma ready_own: "ready N h b \<Longrightarrow> own N h b"
  by (simp add: ready_def)

lemma ready_step: "ready N h b \<Longrightarrow> pres N h h' \<Longrightarrow> keeps b h h' \<Longrightarrow> ready N h' b"
  using own_step by (auto simp: ready_def keeps_def)

lemma actualCeiling_total:
  "compartments (models h a) \<noteq> [] \<Longrightarrow> \<exists>c. actualCeiling a h = Some (Ret c h)"
  by (auto simp: actualCeiling_def leadingComp_def return_def split: list.splits)

lemma ceilingSim_total:
  "compartments (models h a) \<noteq> [] \<Longrightarrow> \<exists>c. ceilingSim a h = Some (Ret c h)"
  using actualCeiling_total[of h a] by (auto simp: ceilingSim_def return_def)

lemma ceiling_plain:
  assumes "sim (models h a) \<or> ceilingTypeValue (configuration (models h a)) = Actual"
  shows "ceiling_model a h = ceilingSim a h"
proof -
  have e: "(if sim (models h a) then Actual else ceilingTypeValue (configuration (models h a))) = Actual"
    using assms by auto
  show ?thesis
  proof (cases "actualCeiling a h")
    case None
    then show ?thesis by (simp add: ceiling_model_def ceilingSim_def Let_def e)
  next
    case (Some out)
    then have "heap_of out = h" by (rule actualCeiling_heap)
    then show ?thesis using Some
      by (cases out) (simp_all add: ceiling_model_def ceilingSim_def Let_def e)
  qed
qed

lemma ceilingSim_returns_here: "returns_here ceilingSim b"
  unfolding returns_here_def ready_def using ceilingSim_total by blast

lemma ceiling_returns_here: "returns_here ceiling_model b"
  unfolding returns_here_def ready_def using ceilingSim_total ceiling_plain by metis

lemma leadingComp_total:
  "compartments (models h a) \<noteq> [] \<Longrightarrow> \<exists>lc. leadingComp a h = Some lc"
  by (auto simp: leadingComp_def split: list.splits)

lemma calcMaxSlopedGF_with_total:
  assumes "returns_here cl b" "ready N h b"
  shows "\<exists>g h'. calcMaxSlopedGF_with cl b d h = Some (Ret g h')"
proof -
  obtain c where "cl b h = Some (Ret c h)" using assms unfolding returns_here_def by blast
  then show ?thesis
    by (simp add: calcMaxSlopedGF_with_def Let_def return_def)
qed

lemma recalculateCompartments_with_total:
  assumes "query_ok cl" "returns_here cl b" "ready N h b"
  shows "\<exists>h'. recalculateCompartments_with cl b r h = Some (Ret () h')"
proof -
  let ?cfg = "configuration (models h b)"
  let ?h1 = "recalculateEach (compartments (models h b)) r (gfHigh ?cfg) (surfacePressureValue ?cfg) h"
  have p1: "pres N h ?h1" "keeps b h ?h1"
    using assms(3) by (auto simp: ready_def own_def core_keeps intro!: recalculateEach_pres)
  have r1: "ready N ?h1 b" using ready_step[OF assms(3) p1] .
  show ?thesis
  proof (cases "neq (gfHigh ?cfg) (gfLow ?cfg)")
    case True
    then show ?thesis by (simp add: recalculateCompartments_with_def Let_def return_def)
  next
    case False
    obtain g h2 where c: "calcMaxSlopedGF_with cl b (rd_depth r) ?h1 = Some (Ret g h2)"
      using calcMaxSlopedGF_with_total[OF assms(2) r1] by blast
    have "pres N ?h1 h2 \<and> core b ?h1 h2"
      using calcMaxSlopedGF_with_step[OF assms(1) ready_own[OF r1] c] by simp
    then have "ready N h2 b" using ready_step[OF r1] core_keeps by blast
    then obtain lc where "leadingComp b h2 = Some lc"
      using leadingComp_total by (auto simp: ready_def)
    then show ?thesis using False c
      by (simp add: recalculateCompartments_with_def Let_def return_def)
  qed
qed

lemma recalculate_with_total:
  assumes "query_ok cl" "returns_here cl b" "ready N h b"
  shows "\<exists>h'. recalculate_with cl b r h = Some (Ret () h')"
proof -
  obtain h1 where "recalculateCompartments_with cl b r h = Some (Ret () h1)"
    using recalculateCompartments_with_total[OF assms] by blast
  then show ?thesis by (simp add: recalculate_with_def return_def)
qed

lemma validateDepth_ok:
  "\<not> nlt d Depth_zero \<Longrightarrow> \<not> ngt d (Fin 200) \<Longrightarrow> validateDepth d h = Some (Ret () h)"
  by (simp add: validateDepth_def return_def)

lemma record_with_total:
  assumes "query_ok cl" "returns_here cl b" "ready N h b"
    and "\<not> nlt d Depth_zero" "\<not> ngt d (Fin 200)"
  shows "\<exists>h'. record_with cl b d t g h = Some (Ret () h') \<and>
           depth (state (models h' b)) = d \<and> gas (state (models h' b)) = g \<and>
           time (state (models h' b)) = nadd (time (state (models h b))) t"
proof -
  let ?h3 = "set_state b (\<lambda>s. s\<lparr>time := nadd (time s) t\<rparr>)
              (set_state b (\<lambda>s. s\<lparr>gas := g\<rparr>) (set_state b (\<lambda>s. s\<lparr>depth := d\<rparr>) h))"
  have nb: "N \<le> b" using assms(3) by (simp add: ready_def own_def)
  have p: "pres N h ?h3 \<and> keeps b h ?h3"
    using nb by (auto simp: pres_def keeps_def set_state_def)
  have r3: "ready N ?h3 b" using ready_step[OF assms(3)] p by blast
  obtain h' where rc: "recalculate_with cl b \<lparr>rd_depth = d, rd_time = t, rd_gas = g\<rparr> ?h3 = Some (Ret () h')"
    using recalculate_with_total[OF assms(1,2) r3] by blast
  have "core b ?h3 h'"
    using recalculate_with_step[OF assms(1) ready_own[OF r3] rc] by simp
  then have "depth (state (models h' b)) = d \<and> gas (state (models h' b)) = g \<and>
           time (state (models h' b)) = nadd (time (state (models h b))) t"
    by (simp add: core_def set_state_def)
  then show ?thesis using rc validateDepth_ok[OF assms(4,5)]
    by (simp add: record_with_def Let_def)
qed

lemma travelLoop_exit:
  "\<not> nlt (Fin (real i)) secs \<Longrightarrow> travelLoop cl b secs dr g i cd h = Some (Ret () h)"
  by (subst travelLoop.simps) (simp add: return_def)

lemma travelLoop_total:
  assumes "query_ok cl" "returns_here cl b" "secs \<noteq> PInf"
  shows "ready N h b \<Longrightarrow>
         \<exists>h'. travelLoop cl b secs dr g i cd h = Some (Ret () h') \<and>
              depth (state (models h' b)) = depth (state (models h b)) \<and>
              gas (state (models h' b)) = gas (state (models h b))"
proof (induction "case secs of Fin s \<Rightarrow> nat \<lceil>s\<rceil> - i | _ \<Rightarrow> 0" arbitrary: i cd h rule: less_induct)
  case less
  show ?case
  proof (cases "nlt (Fin (real i)) secs")
    case False
    then show ?thesis using travelLoop_exit by simp
  next
    case True
    then obtain s where s: "secs = Fin s" "real i < s"
      using assms(3) by (cases secs) auto
    let ?h1 = "set_state b (\<lambda>s. s\<lparr>time := nadd (time s) (Time_fromSeconds (Fin 1))\<rparr>) h"
    let ?r = "\<lparr>rd_depth = nadd cd dr, rd_time = Time_fromSeconds (Fin 1), rd_gas = g\<rparr>"
    have nb: "N \<le> b" using less.prems by (simp add: ready_def own_def)
    have p1: "pres N h ?h1 \<and> keeps b h ?h1"
      using nb by (auto simp: pres_def keeps_def set_state_def)
    have r1: "ready N ?h1 b" using ready_step[OF less.prems] p1 by blast
    obtain h2 where rc: "recalculate_with cl b ?r ?h1 = Some (Ret () h2)"
      using recalculate_with_total[OF assms(1,2) r1] by blast
    have c2: "pres N ?h1 h2 \<and> core b ?h1 h2"
      using recalculate_with_step[OF assms(1) ready_own[OF r1] rc] by simp
    have r2: "ready N h2 b" using ready_step[OF r1] c2 core_keeps by blast
    have "i < nat \<lceil>s\<rceil>" using s(2) by linarith
    then have m: "(case secs of Fin s \<Rightarrow> nat \<lceil>s\<rceil> - (i + 1) | _ \<Rightarrow> 0)
           < (case secs of Fin s \<Rightarrow> nat \<lceil>s\<rceil> - i | _ \<Rightarrow> 0)"
      using s(1) by simp
    from less.hyps[OF m r2, of "nadd cd dr"] obtain h' where
      l: "travelLoop cl b secs dr g (i + 1) (nadd cd dr) h2 = Some (Ret () h')"
         "depth (state (models h' b)) = depth (state (models h2 b))"
         "gas (state (models h' b)) = gas (state (models h2 b))"
      by blast
    have "travelLoop cl b secs dr g i cd h = Some (Ret () h')"
      by (subst travelLoop.simps) (use True rc l(1) in \<open>simp add: Let_def\<close>)
    moreover have "depth (state (models h2 b)) = depth (state (models h b))"
      "gas (state (models h2 b)) = gas (state (models h b))"
      using c2 by (auto simp: core_def set_state_def)
    ultimately show ?thesis using l by simp
  qed
qed

lemma recordTravel_with_total:
  assumes "query_ok cl" "returns_here cl b" "ready N h b"
    and "\<not> nlt target Depth_zero" "\<not> ngt target (Fin 200)" "t \<noteq> PInf"
  shows "\<exists>h'. recordTravel_with cl b target t g h = Some (Ret () h') \<and>
           depth (state (models h' b)) = target \<and> gas (state (models h' b)) = g"
proof -
  let ?h1 = "set_state b (\<lambda>s. s\<lparr>gas := g\<rparr>) h"
  have nb: "N \<le> b" using assms(3) by (simp add: ready_def own_def)
  have p1: "pres N h ?h1 \<and> keeps b h ?h1"
    using nb by (auto simp: pres_def keeps_def set_state_def)
  have r1: "ready N ?h1 b" using ready_step[OF assms(3)] p1 by blast
  have t: "asSeconds t \<noteq> PInf" using assms(6) by (simp add: asSeconds_def)
  obtain h2 where l: "travelLoop cl b (asSeconds t)
      (ndiv (nsub target (depth (state (models ?h1 b)))) (asSeconds t)) g 0
      (depth (state (models ?h1 b))) ?h1 = Some (Ret () h2)"
    "gas (state (models h2 b)) = gas (state (models ?h1 b))"
    using travelLoop_total[OF assms(1,2) t r1] by blast
  have "recordTravel_with cl b target t g h =
          Some (Ret () (set_state b (\<lambda>s. s\<lparr>depth := target\<rparr>) h2))"
    using l(1) validateDepth_ok[OF assms(4,5)]
    by (simp add: recordTravel_with_def Let_def return_def)
  moreover have "gas (state (models h2 b)) = g" using l(2) by (simp add: set_state_def)
  ultimately show ?thesis by (simp add: set_state_def)
qed

lemma recordTravelWithRate_with_total:
  assumes "query_ok cl" "returns_here cl b" "ready N h b"
    and "\<not> nlt target Depth_zero" "\<not> ngt target (Fin 200)"
    and "Time_fromMinutes (ndiv (nabs (nsub target (depth (state (models h b))))) rate) \<noteq> PInf"
  shows "\<exists>h'. recordTravelWithRate_with cl b target rate g h = Some (Ret () h') \<and>
           depth (state (models h' b)) = target \<and> gas (state (models h' b)) = g"
  using recordTravel_with_total[OF assms(1-5) assms(6)]
  by (simp add: recordTravelWithRate_with_def Let_def)

lemma Gas_air_constructed: "Gas_new (Fin 0.21) (Fin 0) = Inr Gas_air"
  by (simp add: Gas_new_def Gas_air_def ngt_def nsub_def)

lemma Compartment_clone_id: "Compartment_clone c = c"
  by (simp add: Compartment_clone_def Compartment_new_def Let_def)

lemma OxTox_clone_id [simp]: "OxTox_clone ox = ox"
  by (simp add: OxTox_clone_def)

lemma cloneEach_content:
  "cloneEach cs h = (cs', h') \<Longrightarrow> \<forall>c\<in>set cs. c < nxt h \<Longrightarrow> map (comps h') cs' = map (comps h) cs"
proof (induction cs arbitrary: h cs' h')
  case Nil
  then show ?case by simp
next
  case (Cons c cs)
  let ?h1 = "h\<lparr>comps := (comps h)(nxt h := Compartment_clone (comps h c)), nxt := Suc (nxt h)\<rparr>"
  obtain cs1 h1' where r: "cloneEach cs ?h1 = (cs1, h1')"
    by (cases "cloneEach cs ?h1") auto
  from Cons.prems(1) r have e: "cs' = nxt h # cs1" "h' = h1'"
    by (auto simp: Let_def)
  have lt: "\<forall>c\<in>set cs. c < nxt ?h1" using Cons.prems(2) by auto
  have "map (comps h1') cs1 = map (comps ?h1) cs"
    using Cons.IH[OF r lt] .
  moreover have "map (comps ?h1) cs = map (comps h) cs"
    using Cons.prems(2) by auto
  moreover have "comps h1' (nxt h) = comps h c"
    using cloneEach_facts[OF r] by (simp add: Compartment_clone_id)
  ultimately show ?case unfolding e by simp
qed

lemma copyInto_facts:
  assumes "\<forall>c\<in>set (compartments (models h a)). c < nxt h"
  shows "state (models (copyInto a cloned h) cloned) = (state (models h a))\<lparr>oxTox := nxt h\<rparr>"
    and "map (comps (copyInto a cloned h)) (compartments (models (copyInto a cloned h) cloned))
           = map (comps h) (compartments (models h a))"
    and "oxs (copyInto a cloned h) (nxt h) = oxs h (oxTox (state (models h a)))"
proof -
  let ?ox = "nxt h"
  let ?st = "\<lparr>depth = depth (state (models h a)), time = time (state (models h a)),
              gas = gas (state (models h a)), gfLowDepth = gfLowDepth (state (models h a)),
              oxTox = ?ox\<rparr>"
  let ?h1 = "h\<lparr>oxs := (oxs h)(?ox := OxTox_clone (oxs h (oxTox (state (models h a))))), nxt := Suc ?ox\<rparr>"
  let ?h2 = "?h1\<lparr>models := (models ?h1)(cloned := (models ?h1 cloned)\<lparr>state := ?st\<rparr>)\<rparr>"
  obtain cs h3 where r: "cloneEach (compartments (models h a)) ?h2 = (cs, h3)"
    by (cases "cloneEach (compartments (models h a)) ?h2") auto
  note f = cloneEach_facts[OF r]
  have lt: "\<forall>c\<in>set (compartments (models h a)). c < nxt ?h2" using assms by auto
  have c: "map (comps h3) cs = map (comps ?h2) (compartments (models h a))"
    using cloneEach_content[OF r lt] .
  show "state (models (copyInto a cloned h) cloned) = (state (models h a))\<lparr>oxTox := nxt h\<rparr>"
    using f r by (simp add: copyInto_def Let_def)
  show "map (comps (copyInto a cloned h)) (compartments (models (copyInto a cloned h) cloned))
           = map (comps h) (compartments (models h a))"
    using f r c by (simp add: copyInto_def Let_def)
  show "oxs (copyInto a cloned h) (nxt h) = oxs h (oxTox (state (models h a)))"
    using f r by (simp add: copyInto_def Let_def)
qed

lemma fork_returns:
  assumes "own 0 h a" "validate (configuration (models h a)) = None"
  shows "\<exists>h'. fork a h = Some (Ret (nxt h) h') \<and> pres (nxt h) h h' \<and> own (nxt h) h' (nxt h) \<and>
           sim (models h' (nxt h)) \<and>
           configuration (models h' (nxt h)) = configuration (models h a) \<and>
           depth (state (models h' (nxt h))) = depth (state (models h a)) \<and>
           time (state (models h' (nxt h))) = time (state (models h a)) \<and>
           gas (state (models h' (nxt h))) = gas (state (models h a)) \<and>
           gfLowDepth (state (models h' (nxt h))) = gfLowDepth (state (models h a)) \<and>
           map (comps h') (compartments (models h' (nxt h))) = map (comps h) (compartments (models h a))"
proof -
  let ?cfg = "configuration (models h a)"
  let ?h1 = "snd (construct_model ?cfg h)"
  note c = construct_step[of h ?cfg]
  have n: "BuhlmannModel_new ?cfg h = Some (Ret (nxt h) ?h1)"
    using assms(2) c by (simp add: BuhlmannModel_new_def return_def)
  have a: "a < nxt h" "\<forall>c\<in>set (compartments (models h a)). c < nxt h"
    using assms(1) by (auto simp: own_def)
  have m: "models ?h1 a = models h a" using c a by (simp add: pres_def)
  have cs: "\<forall>c\<in>set (compartments (models ?h1 a)). c < nxt ?h1"
    using m a c by (fastforce simp: pres_def)
  have o1: "own (nxt h) ?h1 (nxt h)" using c by metis
  note ci = copyInto_step[OF o1, of a]
  note cf = copyInto_facts[OF cs, of "nxt h"]
  have e: "fork a h = Some (Ret (nxt h) (copyInto a (nxt h) ?h1))"
    using n by (simp add: fork_def return_def)
  have "map (comps ?h1) (compartments (models h a)) = map (comps h) (compartments (models h a))"
    using c a by (auto simp: pres_def)
  then show ?thesis
    using e ci cf c m pres_trans by (intro exI[of _ "copyInto a (nxt h) ?h1"]) auto
qed

lemma ready_fork:
  assumes "own (nxt h) h' s" "sim (models h' s)"
    "map (comps h') (compartments (models h' s)) = map (comps h) (compartments (models h a))"
    "compartments (models h a) \<noteq> []"
  shows "ready (nxt h) h' s"
proof -
  have "length (compartments (models h' s)) = length (compartments (models h a))"
    using assms(3) map_eq_imp_length_eq by blast
  then have "compartments (models h' s) \<noteq> []" using assms(4) by auto
  then show ?thesis using assms by (simp add: ready_def)
qed

lemma pres_unchanged: "own 0 h a \<Longrightarrow> pres (nxt h) h h' \<Longrightarrow> unchanged a h h'"
  by (auto simp: own_def pres_def unchanged_def list_all_iff)

lemma actualCeiling_zero:
  assumes "compartments (models h a) \<noteq> []"
    and "\<forall>c\<in>set (compartments (models h a)). Compartment_ceiling (comps h c) = Fin 0"
  shows "actualCeiling a h = Some (Ret (Fin 0) h)"
proof -
  obtain lc where lc: "leadingComp a h = Some lc" using leadingComp_total[OF assms(1)] by blast
  then have "Compartment_ceiling (comps h lc) = Fin 0" using leadingComp_mem assms(2) by blast
  then show ?thesis using lc by (simp add: actualCeiling_def return_def)
qed

lemma atRest_ceiling:
  assumes "atRest h s"
  shows "actualCeiling s h = Some (Ret (Fin 0) h)"
proof (rule actualCeiling_zero)
  show "compartments (models h s) \<noteq> []" using assms by (simp add: atRest_def)
  show "\<forall>c\<in>set (compartments (models h s)). Compartment_ceiling (comps h c) = Fin 0"
    using assms fresh_ceilings by (fastforce simp: atRest_def list_all_iff)
qed

lemma atRest_ceiling_model:
  assumes "atRest h s"
  shows "ceiling_model s h = Some (Ret (Fin 0) h)"
proof -
  have c: "configuration (models h s) = BuhlmannConfig_default" using assms by (simp add: atRest_def)
  then have "ceiling_model s h = ceilingSim s h"
    by (intro ceiling_plain) (simp add: BuhlmannConfig_default_def)
  then show ?thesis using atRest_ceiling[OF assms] c
    by (simp add: ceilingSim_def roundCeiling_def BuhlmannConfig_default_def return_def)
qed

lemma atRest_inDeco:
  assumes "atRest h s"
  shows "inDeco s h = Some (Ret False h)"
proof -
  have c: "configuration (models h s) = BuhlmannConfig_default" using assms by (simp add: atRest_def)
  show ?thesis using atRest_ceiling_model[OF assms] c
    by (simp add: inDeco_def BuhlmannConfig_default_def return_def ngt_def Depth_zero_def)
qed

lemma recalculateEach_fixed:
  "\<forall>c\<in>set cs. Compartment_recalculate (comps h c) r g sp = comps h c \<Longrightarrow> recalculateEach cs r g sp h = h"
  by (induction cs arbitrary: h) (auto simp: set_comp_def)

lemma atRest_record:
  assumes "atRest h s" "sim (models h s)"
  shows "record_model s (Fin 0) (Fin t) Gas_air h =
           Some (Ret () (set_state s (\<lambda>st. st\<lparr>depth := Fin 0, gas := Gas_air, time := nadd (time st) (Fin t)\<rparr>) h))"
proof -
  let ?h3 = "set_state s (\<lambda>st. st\<lparr>time := nadd (time st) (Fin t)\<rparr>)
              (set_state s (\<lambda>st. st\<lparr>gas := Gas_air\<rparr>) (set_state s (\<lambda>st. st\<lparr>depth := Fin 0\<rparr>) h))"
  let ?r = "\<lparr>rd_depth = Fin 0, rd_time = Fin t, rd_gas = Gas_air\<rparr>"
  have e: "?h3 = set_state s (\<lambda>st. st\<lparr>depth := Fin 0, gas := Gas_air, time := nadd (time st) (Fin t)\<rparr>) h"
    by (simp add: set_state_def)
  have c: "configuration (models ?h3 s) = BuhlmannConfig_default"
    "compartments (models ?h3 s) = compartments (models h s)" "comps ?h3 = comps h" "sim (models ?h3 s)"
    using assms by (simp_all add: atRest_def set_state_def)
  have "\<forall>c\<in>set (compartments (models h s)).
          Compartment_recalculate (comps ?h3 c) ?r (Fin 100) (Fin 1013) = comps ?h3 c"
    using assms(1) fresh_fixed unfolding c(3) atRest_def list_all_iff by fastforce
  then have "recalculateEach (compartments (models h s)) ?r (Fin 100) (Fin 1013) ?h3 = ?h3"
    by (rule recalculateEach_fixed)
  then have "recalculate_with ceiling_model s ?r ?h3 = Some (Ret () ?h3)"
    using c by (simp add: recalculate_with_def recalculateCompartments_with_def Let_def
        BuhlmannConfig_default_def return_def)
  then show ?thesis unfolding e[symmetric]
    by (simp add: record_model_def record_with_def validateDepth_def Depth_zero_def ngt_def
        Let_def return_def)
qed

lemma atRest_set_state: "atRest h s \<Longrightarrow> atRest (set_state b f h) s"
  by (auto simp: atRest_def set_state_def)

lemma ndlLoop_atRest:
  "atRest h s \<Longrightarrow> sim (models h s) \<Longrightarrow> i \<le> 99 \<Longrightarrow> a \<noteq> s \<Longrightarrow>
   depth (state (models h a)) = Fin 0 \<Longrightarrow> gas (state (models h a)) = Gas_air \<Longrightarrow>
   \<exists>h'. ndlLoop a s (Fin 60) i h = Some (Ret (Fin 5940) h')"
proof (induction "99 - i" arbitrary: i h)
  case 0
  then have "i = 99" by simp
  then show ?case
    by (subst ndlLoop.simps) (simp add: NDL_CUT_OFF_MINS_def Time_fromMinutes_def return_def)
next
  case (Suc k)
  then have i: "i < 99" by simp
  let ?h1 = "set_state s (\<lambda>st. st\<lparr>depth := Fin 0, gas := Gas_air, time := nadd (time st) (Fin 60)\<rparr>) h"
  have m: "models ?h1 a = models h a" using Suc.prems(4) by (simp add: set_state_def)
  have r: "record_model s (depth (state (models h a))) (Fin 60) (gas (state (models h a))) h
            = Some (Ret () ?h1)"
    using atRest_record[OF Suc.prems(1,2)] Suc.prems(5,6) by simp
  have a1: "atRest ?h1 s" "sim (models ?h1 s)"
    using Suc.prems(1,2) atRest_set_state by (simp_all add: set_state_def)
  have d: "inDeco s ?h1 = Some (Ret False ?h1)" using atRest_inDeco[OF a1(1)] .
  have k: "k = 99 - (i + 1)" using Suc.hyps(2) by simp
  have "\<exists>h'. ndlLoop a s (Fin 60) (i + 1) ?h1 = Some (Ret (Fin 5940) h')"
    using Suc.hyps(1)[OF k a1] i Suc.prems(4,5,6) m by simp
  then obtain h' where "ndlLoop a s (Fin 60) (i + 1) ?h1 = Some (Ret (Fin 5940) h')" by blast
  then show ?case
    by (subst ndlLoop.simps) (use i r d in \<open>simp add: NDL_CUT_OFF_MINS_def\<close>)
qed

lemma table_length: "length ZHL_16C_N2_16A_HE_VALUES = 16"
  by (simp add: ZHL_16C_N2_16A_HE_VALUES_def)

lemma atRest_freshHeap: "atRest freshHeap 0"
proof -
  have "\<exists>n p. p \<in> set ZHL_16C_N2_16A_HE_VALUES \<and>
           comps freshHeap c = Compartment_new n p BuhlmannConfig_default"
    if "c \<in> set [2..<18]" for c
  proof -
    have "c = 2 + (c - 2)" "c - 2 < 16" using that by auto
    then obtain k where k: "c = 2 + k" "k < 16" by blast
    show ?thesis using freshHeap_comps[OF k(2)] k table_length
      by (metis nth_mem)
  qed
  then show ?thesis by (simp add: atRest_def freshHeap_model list_all_iff)
qed

lemma atRest_fork:
  assumes "atRest h a" "configuration (models h' s) = configuration (models h a)"
    "map (comps h') (compartments (models h' s)) = map (comps h) (compartments (models h a))"
  shows "atRest h' s"
proof -
  let ?P = "\<lambda>v. \<exists>n p. p \<in> set ZHL_16C_N2_16A_HE_VALUES \<and> v = Compartment_new n p BuhlmannConfig_default"
  have "list_all ?P (map (comps h) (compartments (models h a)))"
    using assms(1) by (simp add: atRest_def list_all_iff)
  then have "list_all ?P (map (comps h') (compartments (models h' s)))" using assms(3) by simp
  moreover have "compartments (models h' s) \<noteq> []"
    using assms(1,3) by (auto simp: atRest_def)
  ultimately show ?thesis using assms(1,2) by (simp add: atRest_def list_all_iff)
qed

lemma validate_default: "validate BuhlmannConfig_default = None"
  by (simp add: validate_def BuhlmannConfig_default_def ngt_def)

lemma ndl_atRest:
  assumes "own 0 h a" "atRest h a" "depth (state (models h a)) = Fin 0" "gas (state (models h a)) = Gas_air"
  shows "\<exists>h'. ndl a h = Some (Ret (Fin 5940) h')"
proof -
  have c: "configuration (models h a) = BuhlmannConfig_default" using assms(2) by (simp add: atRest_def)
  obtain h2 where f: "fork a h = Some (Ret (nxt h) h2)" "pres (nxt h) h h2" "own (nxt h) h2 (nxt h)"
    "sim (models h2 (nxt h))" "configuration (models h2 (nxt h)) = configuration (models h a)"
    "map (comps h2) (compartments (models h2 (nxt h))) = map (comps h) (compartments (models h a))"
    using fork_returns[OF assms(1)] c validate_default by auto
  have a: "a < nxt h" using assms(1) by (simp add: own_def)
  then have m: "models h2 a = models h a" using f(2) by (simp add: pres_def)
  have "\<exists>h'. ndlLoop a (nxt h) (Fin 60) 0 h2 = Some (Ret (Fin 5940) h')"
    using ndlLoop_atRest[OF atRest_fork[OF assms(2) f(5,6)] f(4), of 0 a] a m assms(3,4) by simp
  then show ?thesis
    using atRest_inDeco[OF assms(2)] f(1) by (simp add: ndl_def Time_fromMinutes_def)
qed

lemma Gas_equals_refl: "o2Pp g = Fin x \<Longrightarrow> n2Pp g = Fin y \<Longrightarrow> hePp g = Fin z \<Longrightarrow> Gas_equals g g"
  by (simp add: Gas_equals_def)

lemma deco_at_surface:
  assumes "own 0 h a" "validate (configuration (models h a)) = None"
    "compartments (models h a) \<noteq> []" "nle (depth (state (models h a))) (Fin 0)"
    "gasMixes \<noteq> []" "find (\<lambda>g. Gas_equals g (gas (state (models h a)))) gasMixes \<noteq> None"
  shows "\<exists>h'. deco a gasMixes h =
           Some (Ret \<lparr>decoStages = [], tts = Time_zero, ttsSurface = Time_zero, runtime_sim = True\<rparr> h')"
proof -
  obtain h0 where f: "fork a h = Some (Ret (nxt h) h0)" "own (nxt h) h0 (nxt h)"
    "sim (models h0 (nxt h))" "depth (state (models h0 (nxt h))) = depth (state (models h a))"
    "gas (state (models h0 (nxt h))) = gas (state (models h a))"
    "map (comps h0) (compartments (models h0 (nxt h))) = map (comps h) (compartments (models h a))"
    using fork_returns[OF assms(1,2)] by auto
  let ?s = "nxt h"
  let ?h1 = "h0\<lparr>models := (models h0)(?s := (models h0 ?s)\<lparr>sim := True\<rparr>)\<rparr>"
  have "(models h0 ?s)\<lparr>sim := True\<rparr> = models h0 ?s" using f(3) by (cases "models h0 ?s") simp
  then have e: "?h1 = h0" by simp
  have r: "ready (nxt h) h0 ?s" using ready_fork[OF f(2,3,6) assms(3)] .
  then obtain c where c: "ceiling_model ?s h0 = Some (Ret c h0)"
    using ceiling_returns_here unfolding returns_here_def by blast
  have n: "nextDecoAction a ?s gasMixes h0 = Some (Ret (None, None) h0)"
    using assms(4) f(4) by (simp add: nextDecoAction_def Let_def return_def)
  have l: "decoLoop a ?s gasMixes [] h0 = Some (Ret [] h0)"
    by (subst decoLoop.simps) (simp add: c n return_def)
  show ?thesis
    using f(1) assms(5,6) l unfolding deco_def clone_fork
    by (simp add: e f(5) Let_def return_def)
qed

lemma newHeap_surface:
  "compartments (models (newHeap cfg) 0) \<noteq> []" "depth (state (models (newHeap cfg) 0)) = Fin 0"
  "gas (state (models (newHeap cfg) 0)) = Gas_air" "configuration (models (newHeap cfg) 0) = cfg"
  by (simp_all add: newHeap_model initialState_def)

lemma validate_adaptive: "validate (BuhlmannConfig_default\<lparr>ceilingTypeValue := Adaptive\<rparr>) = None"
  by (simp add: validate_def BuhlmannConfig_default_def ngt_def)

lemma Gas_air_equals: "Gas_equals Gas_air Gas_air"
  by (simp add: Gas_equals_def Gas_air_def)

lemma neq_eq: "neq x y \<Longrightarrow> x = y"
  by (cases x; cases y) auto

lemma Gas_equals_eq: "Gas_equals g (g' :: Gas) \<Longrightarrow> g = g'"
  by (cases g; cases g') (auto simp: Gas_equals_def dest: neq_eq)

lemma set_insertGas: "set (insertGas g xs) = insert g (set xs)"
  by (induction xs) auto

lemma set_sortByO2: "set (sortByO2 gs) = set gs"
  unfolding sortByO2_def by (induction gs) (auto simp: set_insertGas)

lemma nextSwitchGas_mem: "nextSwitchGas cfg d cur gasMixes = Some g \<Longrightarrow> g \<in> set gasMixes"
proof -
  assume a: "nextSwitchGas cfg d cur gasMixes = Some g"
  let ?cands = "filter (\<lambda>g. ngt (pp_o2 (partialPressures g d (surfacePressureValue cfg)))
                  (pp_o2 (partialPressures cur d (surfacePressureValue cfg)))) gasMixes"
  from a have "g \<in> set (sortByO2 ?cands)"
    by (auto simp: nextSwitchGas_def Let_def split: if_splits list.splits)
  then show ?thesis by (auto simp: set_sortByO2)
qed

lemma nextDecoAction_gas:
  assumes "nextDecoAction a s gasMixes h = Some (Ret r h')" "snd r = Some g"
  shows "g \<in> set gasMixes"
proof (cases "nle (depth (state (models h s))) (Fin 0)")
  case True
  then show ?thesis using assms by (auto simp: nextDecoAction_def Let_def)
next
  case False
  with assms(1) have "andThen (ceiling_model s h) (\<lambda>ceil h1.
             if nle ceil (Fin 0) then return (Some Ascent, None) h1
             else if nlt (depth (state (models h s))) (decoStopDepth ceil) then return (Some Ascent, None) h1
             else
               let nextGas = nextSwitchGas (configuration (models h1 a)) (depth (state (models h s)))
                               (gas (state (models h s))) gasMixes
               in if (case nextGas of
                        Some g \<Rightarrow> \<not> Gas_equals g (gas (state (models h s)))
                                    \<and> nle (depth (state (models h s))) (maxOperatingDepth g (Fin 1.6))
                      | None \<Rightarrow> False)
                  then return (Some GasSwitch, nextGas) h1
                  else if neq (depth (state (models h s))) (decoStopDepth ceil) then return (Some DecoStop, None) h1
                  else if (case nextGas of
                             Some g \<Rightarrow> nge (maxOperatingDepth g (Fin 1.6)) ceil
                           | None \<Rightarrow> False)
                  then return (Some GasSwitch, nextGas) h1
                  else return (Some Ascent, None) h1) = Some (Ret r h')"
    unfolding nextDecoAction_def Let_def by (simp only: if_False)
  then show ?thesis
  proof (cases rule: andThenE)
    case (thrown e h1)
    then show ?thesis by simp
  next
    case (returned ceil h1)
    then show ?thesis using assms(2) nextSwitchGas_mem
      by (auto simp: Let_def split: if_splits)
  qed
qed

lemma registerDecoStage_gases:
  assumes "\<forall>st \<in> set stages. stage_gas st \<in> G" "stage_gas st \<in> G"
  shows "\<forall>st \<in> set (registerDecoStage stages st). stage_gas st \<in> G"
proof (cases "stages = []")
  case True
  then show ?thesis using assms by (simp add: registerDecoStage_def)
next
  case False
  then have l: "stage_gas (last stages) \<in> G" using assms(1) by simp
  have b: "\<forall>st \<in> set (butlast stages). stage_gas st \<in> G"
    using assms(1) by (auto dest: in_set_butlastD)
  show ?thesis using l b assms by (auto simp: registerDecoStage_def)
qed

lemma record_with_effect:
  assumes "query_ok cl" "own N h b" "record_with cl b d t g h = Some (Ret u h')"
  shows "depth (state (models h' b)) = d \<and> gas (state (models h' b)) = g"
  using assms(3) unfolding record_with_def
proof (cases rule: andThenE)
  case (thrown e h1)
  then show ?thesis by simp
next
  case (returned x h0)
  then have [simp]: "h0 = h" using validateDepth_heap by fastforce
  let ?h3 = "set_state b (\<lambda>s. s\<lparr>time := nadd (time s) t\<rparr>)
              (set_state b (\<lambda>s. s\<lparr>gas := g\<rparr>) (set_state b (\<lambda>s. s\<lparr>depth := d\<rparr>) h))"
  have nb: "N \<le> b" using assms(2) by (simp add: own_def)
  have p: "pres N h ?h3 \<and> keeps b h ?h3"
    using nb by (auto simp: pres_def keeps_def set_state_def)
  have o: "own N ?h3 b" using own_step assms(2) p by blast
  have "recalculate_with cl b \<lparr>rd_depth = d, rd_time = t, rd_gas = g\<rparr> ?h3 = Some (Ret u h')"
    using returned(2) by (simp add: Let_def)
  from recalculate_with_step[OF assms(1) o this] show ?thesis
    by (simp add: core_def set_state_def)
qed

lemma travelLoop_pos_aux:
  assumes "travelLoop cl b secs distRate g i cd h = Some out"
  shows "query_ok cl \<longrightarrow> (\<forall>N. own N h b \<longrightarrow>
           depth (state (models (heap_of out) b)) = depth (state (models h b)) \<and>
           gas (state (models (heap_of out) b)) = gas (state (models h b)))"
proof (rule travelLoop.raw_induct[where P = "\<lambda>cl b secs distRate g i cd h out.
         query_ok cl \<longrightarrow> (\<forall>N. own N h b \<longrightarrow>
           depth (state (models (heap_of out) b)) = depth (state (models h b)) \<and>
           gas (state (models (heap_of out) b)) = gas (state (models h b)))",
         OF _ assms])
  fix travelLoop' cl b secs distRate g i cd h out
  assume IH: "\<And>cl b secs distRate g i cd h out. travelLoop' cl b secs distRate g i cd h = Some out \<Longrightarrow>
           query_ok cl \<longrightarrow> (\<forall>N. own N h b \<longrightarrow>
           depth (state (models (heap_of out) b)) = depth (state (models h b)) \<and>
           gas (state (models (heap_of out) b)) = gas (state (models h b)))"
    and body: "(if nlt (Fin (real i)) secs
        then let h1 = set_state b (\<lambda>s. s\<lparr>time := nadd (time s) (Time_fromSeconds (Fin 1))\<rparr>) h;
                 currentDepth1 = nadd cd distRate;
                 r = \<lparr>rd_depth = currentDepth1, rd_time = Time_fromSeconds (Fin 1), rd_gas = g\<rparr>
             in andThen (recalculate_with cl b r h1)
                  (\<lambda>_ h2. travelLoop' cl b secs distRate g (i + 1) currentDepth1 h2)
        else return () h) = Some out"
  show "query_ok cl \<longrightarrow> (\<forall>N. own N h b \<longrightarrow>
           depth (state (models (heap_of out) b)) = depth (state (models h b)) \<and>
           gas (state (models (heap_of out) b)) = gas (state (models h b)))"
  proof (intro impI allI)
    fix N assume q: "query_ok cl" and o: "own N h b"
    show "depth (state (models (heap_of out) b)) = depth (state (models h b)) \<and>
           gas (state (models (heap_of out) b)) = gas (state (models h b))"
    proof (cases "nlt (Fin (real i)) secs")
      case False
      then show ?thesis using body by simp
    next
      case True
      let ?h1 = "set_state b (\<lambda>s. s\<lparr>time := nadd (time s) (Time_fromSeconds (Fin 1))\<rparr>) h"
      have nb: "N \<le> b" using o by (simp add: own_def)
      have p1: "pres N h ?h1 \<and> keeps b h ?h1"
        using nb by (auto simp: pres_def keeps_def set_state_def)
      have o1: "own N ?h1 b" using own_step o p1 by blast
      have s1: "depth (state (models ?h1 b)) = depth (state (models h b))"
        "gas (state (models ?h1 b)) = gas (state (models h b))"
        by (simp_all add: set_state_def)
      from body True have
        "andThen (recalculate_with cl b \<lparr>rd_depth = nadd cd distRate, rd_time = Time_fromSeconds (Fin 1), rd_gas = g\<rparr> ?h1)
           (\<lambda>_ h2. travelLoop' cl b secs distRate g (i + 1) (nadd cd distRate) h2) = Some out"
        by (simp add: Let_def)
      then show ?thesis
      proof (cases rule: andThenE)
        case (thrown e h2)
        have "core b ?h1 h2" using recalculate_with_step[OF q o1 thrown(1)] by simp
        then show ?thesis unfolding thrown(2) heap_of.simps using s1 by (simp add: core_def)
      next
        case (returned x h2)
        have p2: "pres N ?h1 h2 \<and> core b ?h1 h2"
          using recalculate_with_step[OF q o1 returned(1)] by simp
        have o2: "own N h2 b" using own_core o1 p2 by blast
        from IH[OF returned(2)] q o2 have
          "depth (state (models (heap_of out) b)) = depth (state (models h2 b)) \<and>
           gas (state (models (heap_of out) b)) = gas (state (models h2 b))" by blast
        then show ?thesis using p2 s1 by (simp add: core_def)
      qed
    qed
  qed
qed

lemma recordTravel_with_effect:
  assumes "query_ok cl" "own N h b" "recordTravel_with cl b target t g h = Some (Ret u h')"
  shows "depth (state (models h' b)) = target \<and> gas (state (models h' b)) = g"
  using assms(3) unfolding recordTravel_with_def
proof (cases rule: andThenE)
  case (thrown e h1)
  then show ?thesis by simp
next
  case (returned x h0)
  then have [simp]: "h0 = h" using validateDepth_heap by fastforce
  let ?h1 = "set_state b (\<lambda>s. s\<lparr>gas := g\<rparr>) h"
  have nb: "N \<le> b" using assms(2) by (simp add: own_def)
  have p1: "pres N h ?h1 \<and> keeps b h ?h1"
    using nb by (auto simp: pres_def keeps_def set_state_def)
  have o1: "own N ?h1 b" using own_step assms(2) p1 by blast
  from returned(2) show ?thesis unfolding Let_def
  proof (cases rule: andThenE)
    case (thrown e h2)
    then show ?thesis by simp
  next
    case (returned y h2)
    have "gas (state (models h2 b)) = gas (state (models ?h1 b))"
      using travelLoop_pos_aux[OF returned(1)[unfolded \<open>h0 = h\<close>]] assms(1) o1 by fastforce
    then have "gas (state (models h2 b)) = g" by (simp add: set_state_def)
    then show ?thesis using returned(2) by (auto simp: set_state_def)
  qed
qed

lemma recordTravelWithRate_effect:
  assumes "own N h b" "recordTravelWithRate b target rate g h = Some (Ret u h')"
  shows "depth (state (models h' b)) = target \<and> gas (state (models h' b)) = g"
  using recordTravel_with_effect[OF ceiling_query_ok assms(1)] assms(2)
  unfolding recordTravelWithRate_def recordTravelWithRate_with_def Let_def by blast

lemmas record_model_effect = record_with_effect[OF ceiling_query_ok, folded record_model_def]

lemma decoStage_gases:
  assumes "own N h s" "decoStage a s pre act sw ceil stages h = Some (Ret stages1 h')"
    "gas pre \<in> G" "\<And>g. sw = Some g \<Longrightarrow> g \<in> G" "\<forall>st \<in> set stages. stage_gas st \<in> G"
    "gas (state (models h s)) \<in> G"
  shows "(\<forall>st \<in> set stages1. stage_gas st \<in> G) \<and> gas (state (models h' s)) \<in> G"
proof (cases act)
  case Ascent
  with assms(2) have "andThen (recordTravelWithRate s (decoStopDepth ceil)
        (decoAscentRateValue (configuration (models h a))) (gas pre) h) (\<lambda>_ h1.
          return (stages @ [\<lparr>stageType = Ascent, startDepth = depth pre,
                                   endDepth = depth (diveState s h1),
                                   duration = nsub (time (diveState s h1)) (time pre),
                                   stage_gas = gas (diveState s h1)\<rparr>]) h1) = Some (Ret stages1 h')"
    by (simp add: decoStage_def Let_def)
  then show ?thesis
  proof (cases rule: andThenE)
    case (thrown e h1)
    then show ?thesis by simp
  next
    case (returned u h1)
    have e: "gas (state (models h1 s)) = gas pre"
      using recordTravelWithRate_effect[OF assms(1), of _ _ _ u h1] returned(1) by blast
    then show ?thesis using returned(2) assms(3,5) by (auto simp: diveState_def)
  qed
next
  case DecoStop
  with assms(2) have "andThen (record_model s (depth pre) (Time_fromSeconds (Fin 1)) (gas pre) h)
                  (\<lambda>_ h1. return
                       (registerDecoStage stages
                          \<lparr>stageType = DecoStop, startDepth = decoStopDepth ceil,
                           endDepth = decoStopDepth ceil,
                           duration = nsub (time (diveState s h1)) (time pre),
                           stage_gas = gas (diveState s h1)\<rparr>) h1) = Some (Ret stages1 h')"
    by (simp add: decoStage_def Let_def)
  then show ?thesis
  proof (cases rule: andThenE)
    case (thrown e h1)
    then show ?thesis by simp
  next
    case (returned u h1)
    have e: "gas (state (models h1 s)) = gas pre"
      using record_model_effect[OF assms(1), of _ _ _ u h1] returned(1) by blast
    have "stages1 = registerDecoStage stages
                          \<lparr>stageType = DecoStop, startDepth = decoStopDepth ceil,
                           endDepth = decoStopDepth ceil,
                           duration = nsub (time (diveState s h1)) (time pre),
                           stage_gas = gas (diveState s h1)\<rparr>" "h' = h1"
      using returned(2) by simp_all
    moreover have "\<forall>st \<in> set (registerDecoStage stages
                          \<lparr>stageType = DecoStop, startDepth = decoStopDepth ceil,
                           endDepth = decoStopDepth ceil,
                           duration = nsub (time (diveState s h1)) (time pre),
                           stage_gas = gas (diveState s h1)\<rparr>). stage_gas st \<in> G"
      by (rule registerDecoStage_gases[OF assms(5)]) (simp add: diveState_def e assms(3))
    ultimately show ?thesis using e assms(3) by simp
  qed
next
  case GasSwitch
  show ?thesis
  proof (cases sw)
    case None
    with assms(2) GasSwitch show ?thesis using assms(5,6) by (simp add: decoStage_def Let_def)
  next
    case (Some switchGas)
    let ?mod = "maxOperatingDepth switchGas (Fin 1.6)"
    let ?rate = "decoAscentRateValue (configuration (models h a))"
    let ?first = "(if ngt (depth pre) ?mod
                        then andThen (recordTravelWithRate s ?mod ?rate (gas pre) h)
                               (\<lambda>_ h1.
                               let postAscentState = diveState s h1
                               in return
                                    (stages @ [\<lparr>stageType = Ascent, startDepth = depth pre,
                                                endDepth = depth postAscentState,
                                                duration = nsub (time postAscentState) (time pre),
                                                stage_gas = gas pre\<rparr>]) h1)
                        else return stages h)"
    let ?rest = "(\<lambda>stages1 h2.
                         andThen (record_model s (depth (diveState s h2)) Time_zero
                                    switchGas h2) (\<lambda>_ h3.
                           let postSwitchState = diveState s h3
                           in return
                                (registerDecoStage stages1
                                   \<lparr>stageType = GasSwitch, startDepth = depth postSwitchState,
                                    endDepth = depth postSwitchState, duration = Time_zero,
                                    stage_gas = switchGas\<rparr>) h3))"
    have sg: "switchGas \<in> G" using assms(4) Some by simp
    have b: "andThen ?first ?rest = Some (Ret stages1 h')"
      using assms(2) unfolding decoStage_def GasSwitch Some Let_def
      by (simp only: DecoStageType.case option.case)
    from b show ?thesis
    proof (cases rule: andThenE)
      case (thrown e h1)
      then show ?thesis by simp
    next
      case (returned st1 h1)
      have p1: "pres N h h1 \<and> keeps s h h1"
        using returned(1) unfolding Let_def
        by (auto elim!: andThenE dest: recordTravelWithRate_step[OF assms(1)] split: if_splits)
      have o1: "own N h1 s" using own_step assms(1) p1 by blast
      have g1: "\<forall>st \<in> set st1. stage_gas st \<in> G"
        using returned(1) assms(3,5) unfolding Let_def
        by (auto elim!: andThenE split: if_splits)
      from returned(2) show ?thesis
      proof (cases rule: andThenE)
        case (thrown e h3)
        then show ?thesis by simp
      next
        case (returned u h3)
        have e: "gas (state (models h3 s)) = switchGas"
          using record_model_effect[OF o1, of _ _ _ u h3] returned(1) by blast
        have "stages1 = registerDecoStage st1
                  \<lparr>stageType = GasSwitch, startDepth = depth (diveState s h3),
                     endDepth = depth (diveState s h3), duration = Time_zero,
                     stage_gas = switchGas\<rparr>" "h' = h3"
          using returned(2) by (simp_all add: Let_def)
        moreover have "\<forall>st \<in> set (registerDecoStage st1
                  \<lparr>stageType = GasSwitch, startDepth = depth (diveState s h3),
                     endDepth = depth (diveState s h3), duration = Time_zero,
                     stage_gas = switchGas\<rparr>). stage_gas st \<in> G"
          by (rule registerDecoStage_gases[OF g1]) (simp add: sg)
        ultimately show ?thesis using sg e by simp
      qed
    qed
  qed
qed

lemma decoLoop_gases_aux:
  assumes "decoLoop a s gasMixes stages h = Some out"
  shows "\<forall>N st1 h'. own N h s \<longrightarrow> out = Ret st1 h' \<longrightarrow>
           (\<forall>st \<in> set stages. stage_gas st \<in> set gasMixes) \<longrightarrow>
           gas (state (models h s)) \<in> set gasMixes \<longrightarrow>
           (\<forall>st \<in> set st1. stage_gas st \<in> set gasMixes)"
proof (rule decoLoop.raw_induct[where P = "\<lambda>a s gasMixes stages h out.
         \<forall>N st1 h'. own N h s \<longrightarrow> out = Ret st1 h' \<longrightarrow>
           (\<forall>st \<in> set stages. stage_gas st \<in> set gasMixes) \<longrightarrow>
           gas (state (models h s)) \<in> set gasMixes \<longrightarrow>
           (\<forall>st \<in> set st1. stage_gas st \<in> set gasMixes)", OF _ assms])
  fix decoLoop' a s gasMixes stages h out
  assume IH: "\<And>a s gasMixes stages h out. decoLoop' a s gasMixes stages h = Some out \<Longrightarrow>
           \<forall>N st1 h'. own N h s \<longrightarrow> out = Ret st1 h' \<longrightarrow>
           (\<forall>st \<in> set stages. stage_gas st \<in> set gasMixes) \<longrightarrow>
           gas (state (models h s)) \<in> set gasMixes \<longrightarrow>
           (\<forall>st \<in> set st1. stage_gas st \<in> set gasMixes)"
    and body: "andThen (ceiling_model s h) (\<lambda>ceil h1.
       andThen (nextDecoAction a s gasMixes h1) (\<lambda>r h2.
         case fst r of
           None \<Rightarrow> return stages h2
         | Some decoAction \<Rightarrow>
             andThen (decoStage a s (state (models h s)) decoAction (snd r) ceil
                        stages h2) (\<lambda>stages1 h3.
               decoLoop' a s gasMixes stages1 h3))) = Some out"
  show "\<forall>N st1 h'. own N h s \<longrightarrow> out = Ret st1 h' \<longrightarrow>
           (\<forall>st \<in> set stages. stage_gas st \<in> set gasMixes) \<longrightarrow>
           gas (state (models h s)) \<in> set gasMixes \<longrightarrow>
           (\<forall>st \<in> set st1. stage_gas st \<in> set gasMixes)"
  proof (intro allI impI)
    fix N st1 h'
    assume o: "own N h s" and r: "out = Ret st1 h'"
      and g: "\<forall>st \<in> set stages. stage_gas st \<in> set gasMixes"
      and c: "gas (state (models h s)) \<in> set gasMixes"
    from body show "\<forall>st \<in> set st1. stage_gas st \<in> set gasMixes"
    proof (cases rule: andThenE)
      case (thrown e h1)
      then show ?thesis using r by simp
    next
      case (returned ceil h1)
      have q1: "pres N h h1 \<and> core s h h1"
        using query_step[OF ceiling_query_ok o returned(1)] by simp
      have o1: "own N h1 s" using own_core o q1 by blast
      from returned(2) show ?thesis
      proof (cases rule: andThenE)
        case (thrown e h2)
        then show ?thesis using r by simp
      next
        case (returned r2 h2)
        have p2: "pres (nxt h1) h1 h2"
          using nextDecoAction_step[OF own_weaken[OF o1] returned(1)] by simp
        have q2: "pres N h1 h2 \<and> keeps s h1 h2" using query_pres[OF o1 p2] by simp
        have c2: "core s h1 h2" using frame_core[OF o1 p2] .
        have o2: "own N h2 s" using own_step o1 q2 by blast
        have gas2: "gas (state (models h2 s)) \<in> set gasMixes"
          using c q1 c2 by (simp add: core_def)
        show ?thesis
        proof (cases "fst r2")
          case None
          then show ?thesis using returned(2) r g by simp
        next
          case (Some act)
          with returned(2) have
            "andThen (decoStage a s (state (models h s)) act (snd r2) ceil stages h2)
               (\<lambda>stages1 h3. decoLoop' a s gasMixes stages1 h3) = Some out" by simp
          then show ?thesis
          proof (cases rule: andThenE)
            case (thrown e h3)
            then show ?thesis using r by simp
          next
            case (returned st h3)
            have sw: "\<And>g. snd r2 = Some g \<Longrightarrow> g \<in> set gasMixes"
              using nextDecoAction_gas[OF \<open>nextDecoAction a s gasMixes h1 = Some (Ret r2 h2)\<close>] .
            have d: "(\<forall>x \<in> set st. stage_gas x \<in> set gasMixes) \<and>
                     gas (state (models h3 s)) \<in> set gasMixes"
              using decoStage_gases[OF o2 returned(1) c sw g gas2] by blast
            have p3: "pres N h2 h3 \<and> keeps s h2 h3"
              using decoStage_step[OF o2 returned(1)] by simp
            have o3: "own N h3 s" using own_step o2 p3 by blast
            from IH[OF returned(2)] o3 r d show ?thesis by blast
          qed
        qed
      qed
    qed
  qed
qed

lemma find_Gas_equals:
  "find (\<lambda>g. Gas_equals g cur) gasMixes \<noteq> None \<Longrightarrow> cur \<in> set gasMixes"
  by (auto simp: find_None_iff dest: Gas_equals_eq)

lemma deepHeap_reached: "recordTravel 0 (Fin 1) (Fin 0) Gas_air freshHeap = Some (Ret () deepHeap)"
proof -
  have "(models freshHeap 0)\<lparr>state := (state (models freshHeap 0))\<lparr>gas := Gas_air\<rparr>\<rparr> = models freshHeap 0"
    by (simp add: freshHeap_model initialState_def)
  then have e: "set_state 0 (\<lambda>s. s\<lparr>gas := Gas_air\<rparr>) freshHeap = freshHeap"
    unfolding set_state_def by simp
  show ?thesis
    unfolding recordTravel_def recordTravel_with_def
    by (simp add: validateDepth_def Depth_zero_def ngt_def return_def Let_def e
        asSeconds_def travelLoop_exit deepHeap_def)
qed

lemma deepHeap_facts:
  "own 0 deepHeap 0" "atRest deepHeap 0" "depth (state (models deepHeap 0)) = Fin 1"
  "gas (state (models deepHeap 0)) = Gas_air"
proof -
  show "own 0 deepHeap 0"
    using own_freshHeap by (auto simp: deepHeap_def own_def set_state_def)
  show "atRest deepHeap 0"
    unfolding deepHeap_def by (rule atRest_set_state[OF atRest_freshHeap])
  show "depth (state (models deepHeap 0)) = Fin 1" "gas (state (models deepHeap 0)) = Gas_air"
    by (simp_all add: deepHeap_def set_state_def freshHeap_model initialState_def)
qed

lemma decoStopDepth_zero: "decoStopDepth (Fin 0) = Fin 0"
  by (simp add: decoStopDepth_def)

lemma deco_one_ascent:
  assumes "own 0 h a" "atRest h a" "depth (state (models h a)) = Fin 1"
    "gas (state (models h a)) = Gas_air"
  shows "\<exists>rt h'. deco a [Gas_air] h = Some (Ret rt h') \<and> map stage_gas (decoStages rt) = [Gas_air]"
proof -
  have cfg: "configuration (models h a) = BuhlmannConfig_default" and ne: "compartments (models h a) \<noteq> []"
    using assms(2) by (simp_all add: atRest_def)
  have v: "validate (configuration (models h a)) = None" using cfg validate_default by simp
  obtain h0 where f: "fork a h = Some (Ret (nxt h) h0)" "own (nxt h) h0 (nxt h)"
    "sim (models h0 (nxt h))" "depth (state (models h0 (nxt h))) = depth (state (models h a))"
    "gas (state (models h0 (nxt h))) = gas (state (models h a))"
    "map (comps h0) (compartments (models h0 (nxt h))) = map (comps h) (compartments (models h a))"
    "configuration (models h0 (nxt h)) = configuration (models h a)" "pres (nxt h) h h0"
    using fork_returns[OF assms(1) v] by auto
  let ?s = "nxt h"
  let ?h1 = "h0\<lparr>models := (models h0)(?s := (models h0 ?s)\<lparr>sim := True\<rparr>)\<rparr>"
  have "(models h0 ?s)\<lparr>sim := True\<rparr> = models h0 ?s" using f(3) by (cases "models h0 ?s") simp
  then have e: "?h1 = h0" by simp
  have r: "ready (nxt h) h0 ?s" using ready_fork[OF f(2,3,6) ne] .
  have ar: "atRest h0 ?s" using atRest_fork[OF assms(2) f(7,6)] .
  have "a < nxt h" using assms(1) by (simp add: own_def)
  then have cfa: "configuration (models h0 a) = BuhlmannConfig_default"
    using f(8) cfg by (simp add: pres_def)
  have c: "ceiling_model ?s h0 = Some (Ret (Fin 0) h0)" using atRest_ceiling_model[OF ar] .
  have n: "nextDecoAction a ?s [Gas_air] h0 = Some (Ret (Some Ascent, None) h0)"
    using f(4) assms(3) c by (simp add: nextDecoAction_def Let_def return_def)
  let ?rate = "decoAscentRateValue (configuration (models h0 a))"
  have t: "Time_fromMinutes (ndiv (nabs (nsub (Fin 0) (depth (state (models h0 ?s))))) ?rate) \<noteq> PInf"
    using f(4) assms(3) cfa
    by (simp add: Time_fromMinutes_def BuhlmannConfig_default_def nsub_def)
  obtain h1 where tr: "recordTravelWithRate ?s (Fin 0) ?rate Gas_air h0 = Some (Ret () h1)"
    "depth (state (models h1 ?s)) = Fin 0" "gas (state (models h1 ?s)) = Gas_air"
    using recordTravelWithRate_with_total[OF ceiling_query_ok ceiling_returns_here r _ _ t, of Gas_air]
    unfolding recordTravelWithRate_def by (auto simp: ngt_def Depth_zero_def)
  let ?st = "[\<lparr>stageType = Ascent, startDepth = Fin 1, endDepth = Fin 0,
               duration = nsub (time (state (models h1 ?s))) (time (state (models h0 ?s))),
               stage_gas = Gas_air\<rparr>]"
  have ds: "decoStage a ?s (state (models h0 ?s)) Ascent None (Fin 0) [] h0 = Some (Ret ?st h1)"
    using tr f(4,5) assms(3,4)
    by (simp add: decoStage_def Let_def decoStopDepth_zero diveState_def return_def)
  have p1: "pres (nxt h) h0 h1 \<and> keeps ?s h0 h1"
    using recordTravelWithRate_step[OF f(2) tr(1)] by simp
  have r1: "ready (nxt h) h1 ?s" using ready_step[OF r] p1 by blast
  obtain c1 where c1: "ceiling_model ?s h1 = Some (Ret c1 h1)"
    using r1 ceiling_returns_here unfolding returns_here_def by blast
  have n1: "nextDecoAction a ?s [Gas_air] h1 = Some (Ret (None, None) h1)"
    using tr(2) by (simp add: nextDecoAction_def Let_def return_def)
  have l1: "decoLoop a ?s [Gas_air] ?st h1 = Some (Ret ?st h1)"
    by (subst decoLoop.simps) (simp add: c1 n1 return_def)
  have l: "decoLoop a ?s [Gas_air] [] h0 = Some (Ret ?st h1)"
    by (subst decoLoop.simps) (simp add: c n ds l1)
  show ?thesis
    using f(1,5) assms(4) l Gas_air_equals unfolding deco_def clone_fork
    by (simp add: e Let_def return_def)
qed

lemma recalculateEach_comps:
  "distinct cs \<Longrightarrow> c \<in> set cs \<Longrightarrow>
   comps (recalculateEach cs r g sp h) c = Compartment_recalculate (comps h c) r g sp"
  by (induction cs arbitrary: h) (auto simp: set_comp_def recalculateEach_other)

lemma calcMaxSlopedGF_with_comps:
  assumes "query_ok cl" "own N h b" "calcMaxSlopedGF_with cl b d h = Some out"
  shows "\<forall>x < nxt h. comps (heap_of out) x = comps h x"
proof -
  have "\<exists>f. andThen (cl b h) f = Some out \<and>
          (\<forall>x h1 o1. f x h1 = Some o1 \<longrightarrow> comps (heap_of o1) = comps h1)"
    using assms(3) unfolding calcMaxSlopedGF_with_def
    by (intro exI conjI, simp)
       (auto simp: Let_def set_state_def return_def split: if_splits option.splits)
  then obtain f where f: "andThen (cl b h) f = Some out"
    "\<And>x h1 o1. f x h1 = Some o1 \<Longrightarrow> comps (heap_of o1) = comps h1" by blast
  from f(1) show ?thesis
  proof (cases rule: andThenE)
    case (thrown e h1)
    then show ?thesis using assms(1) own_weaken[OF assms(2)]
      unfolding query_ok_def pres_def by fastforce
  next
    case (returned x h1)
    have "pres (nxt h) h h1" using assms(1) own_weaken[OF assms(2)] returned(1)
      unfolding query_ok_def by fastforce
    then show ?thesis using f(2)[OF returned(2)] by (simp add: pres_def)
  qed
qed

lemma recalculateCompartments_with_comps:
  assumes "query_ok cl" "own N h b" "distinct (compartments (models h b))"
    and "recalculateCompartments_with cl b r h = Some (Ret u h')"
    and "c \<in> set (compartments (models h b))"
  shows "comps h' c = Compartment_recalculate (comps h c) r (gfHigh (configuration (models h b)))
                        (surfacePressureValue (configuration (models h b)))
       \<or> (\<exists>mg. comps h' c =
             Compartment_recalculate
               (Compartment_recalculate (comps h c) r (gfHigh (configuration (models h b)))
                  (surfacePressureValue (configuration (models h b))))
               (r\<lparr>rd_time := Time_zero\<rparr>) mg (surfacePressureValue (configuration (models h b))))"
proof -
  let ?cfg = "configuration (models h b)"
  let ?cs = "compartments (models h b)"
  let ?h1 = "recalculateEach ?cs r (gfHigh ?cfg) (surfacePressureValue ?cfg) h"
  have c1: "comps ?h1 c = Compartment_recalculate (comps h c) r (gfHigh ?cfg) (surfacePressureValue ?cfg)"
    using recalculateEach_comps[OF assms(3,5)] .
  have p1: "pres N h ?h1" "core b h ?h1"
    using assms(2) by (auto simp: own_def intro!: recalculateEach_pres)
  have o1: "own N ?h1 b" using own_core[OF assms(2) p1] .
  have lt: "c < nxt ?h1" using assms(2,5) by (simp add: own_def)
  show ?thesis
  proof (cases "neq (gfHigh ?cfg) (gfLow ?cfg)")
    case True
    then have "h' = ?h1" using assms(4)
      by (simp add: recalculateCompartments_with_def Let_def return_def)
    then show ?thesis using c1 by simp
  next
    case False
    then have "andThen (calcMaxSlopedGF_with cl b (rd_depth r) ?h1) (\<lambda>maxGf h2.
                case leadingComp b h2 of
                  None \<Rightarrow> throw TypeError h2
                | Some lc \<Rightarrow>
                    return ()
                      (set_comp lc
                         (Compartment_recalculate (comps h2 lc) (r\<lparr>rd_time := Time_zero\<rparr>) maxGf
                            (surfacePressureValue (configuration (models h2 b)))) h2)) = Some (Ret u h')"
      using assms(4) by (simp add: recalculateCompartments_with_def Let_def)
    then show ?thesis
    proof (cases rule: andThenE)
      case (thrown e h2)
      then show ?thesis by simp
    next
      case (returned mg h2)
      have e2: "comps h2 c = comps ?h1 c"
        using calcMaxSlopedGF_with_comps[OF assms(1) o1 returned(1)] lt by simp
      have k: "core b ?h1 h2" using calcMaxSlopedGF_with_step[OF assms(1) o1 returned(1)] by simp
      then have cf: "configuration (models h2 b) = ?cfg"
        using p1(2) by (simp add: core_def keeps_def)
      obtain lc where lc: "leadingComp b h2 = Some lc"
        using returned(2) by (cases "leadingComp b h2") (auto simp: throw_def)
      then have h': "h' = set_comp lc (Compartment_recalculate (comps h2 lc) (r\<lparr>rd_time := Time_zero\<rparr>) mg
                            (surfacePressureValue ?cfg)) h2"
        using returned(2) cf by (simp add: return_def)
      show ?thesis
      proof (cases "c = lc")
        case True
        then show ?thesis using h' e2 c1 by (auto simp: set_comp_def)
      next
        case False
        then show ?thesis using h' e2 c1 by (simp add: set_comp_def)
      qed
    qed
  qed
qed

lemma record_with_comps:
  assumes "query_ok cl" "own N h b" "distinct (compartments (models h b))"
    and "record_with cl b d t g h = Some (Ret u h')"
    and "c \<in> set (compartments (models h b))"
  shows "comps h' c = Compartment_recalculate (comps h c) \<lparr>rd_depth = d, rd_time = t, rd_gas = g\<rparr>
                        (gfHigh (configuration (models h b)))
                        (surfacePressureValue (configuration (models h b)))
       \<or> (\<exists>mg. comps h' c =
             Compartment_recalculate
               (Compartment_recalculate (comps h c) \<lparr>rd_depth = d, rd_time = t, rd_gas = g\<rparr>
                  (gfHigh (configuration (models h b)))
                  (surfacePressureValue (configuration (models h b))))
               \<lparr>rd_depth = d, rd_time = Time_zero, rd_gas = g\<rparr> mg
               (surfacePressureValue (configuration (models h b))))"
  using assms(4) unfolding record_with_def
proof (cases rule: andThenE)
  case (thrown e h1)
  then show ?thesis by simp
next
  case (returned x h0)
  then have [simp]: "h0 = h" using validateDepth_heap by fastforce
  let ?h3 = "set_state b (\<lambda>s. s\<lparr>time := nadd (time s) t\<rparr>)
              (set_state b (\<lambda>s. s\<lparr>gas := g\<rparr>) (set_state b (\<lambda>s. s\<lparr>depth := d\<rparr>) h))"
  let ?r = "\<lparr>rd_depth = d, rd_time = t, rd_gas = g\<rparr>"
  have nb: "N \<le> b" using assms(2) by (simp add: own_def)
  have p: "pres N h ?h3 \<and> keeps b h ?h3"
    using nb by (auto simp: pres_def keeps_def set_state_def)
  have o: "own N ?h3 b" using own_step assms(2) p by blast
  have s: "compartments (models ?h3 b) = compartments (models h b)"
    "configuration (models ?h3 b) = configuration (models h b)" "comps ?h3 = comps h"
    by (simp_all add: set_state_def)
  have "recalculate_with cl b ?r ?h3 = Some (Ret u h')"
    using returned(2) by (simp add: Let_def)
  then show ?thesis unfolding recalculate_with_def
  proof (cases rule: andThenE)
    case (thrown e h1)
    then show ?thesis by simp
  next
    case (returned y h4)
    have y: "y = ()" by simp
    have "comps h' = comps h4"
      using returned(2) by (auto simp: return_def recalculateOxTox_def Let_def split: if_splits)
    then show ?thesis
      using recalculateCompartments_with_comps[OF assms(1) o, of ?r y h4 c] returned(1) assms(3,5)
      unfolding s by simp
  qed
qed

lemmas record_model_comps = record_with_comps[OF ceiling_query_ok, folded record_model_def]

lemma ready_freshHeap: "ready 0 freshHeap 0"
  using own_freshHeap by (simp add: ready_def freshHeap_model BuhlmannConfig_default_def)

lemma freshHeap_first:
  "heIp (comps freshHeap 2) = Fin 0" "n2Ip (comps freshHeap 2) = Fin 0.750737"
  "heht (params (comps freshHeap 2)) = Fin 1.51" "n2ht (params (comps freshHeap 2)) = Fin 4"
  using freshHeap_comps[of 0]
  by (simp_all add: ZHL_16C_N2_16A_HE_VALUES_def zhl_def Compartment_new_def Let_def
      getAirInspiredPartialPressures_def BuhlmannConfig_default_def Depth_zero_def)

lemma deep_table:
  "list_all (\<lambda>p. \<forall>n m x tot r1 r2.
      ngt (Compartment_ceiling (Compartment_recalculate (tissue n m (Fin x) tot r1 r2 p)
             \<lparr>rd_depth = Fin 40, rd_time = PInf, rd_gas = Gas_air\<rparr> (Fin 70) (Fin 1013))) (Fin 0))
     ZHL_16C_N2_16A_HE_VALUES"
  by (simp add: ZHL_16C_N2_16A_HE_VALUES_def zhl_def Compartment_recalculate_def tissue_def gf3070_def
      Compartment_ceiling_def BuhlmannConfig_default_def
      minTolerableAmbPressureCalc_def mValue_def weightedZhlParams_def weightedParam_def
      maxGfAdjustedZhlParams_def Let_def compartmentInertPressure_def
      compartmentPressureDeltaHaldane_def inspiredPartialPressures_def gasPressuresCompound_def
      ALVEOLI_WATER_VAPOR_PRESSURE_def asMinutes_def Gas_air_def ngt_def)

lemma surface_table:
  "list_all (\<lambda>p. \<forall>n m x tot r1 r2.
      Compartment_ceiling (Compartment_recalculate (tissue n m (Fin x) tot r1 r2 p)
             \<lparr>rd_depth = Fin 0, rd_time = PInf, rd_gas = Gas_air\<rparr> (Fin 70) (Fin 1013)) = Fin 0
      \<and> n2Ip (Compartment_recalculate (tissue n m (Fin x) tot r1 r2 p)
             \<lparr>rd_depth = Fin 0, rd_time = PInf, rd_gas = Gas_air\<rparr> (Fin 70) (Fin 1013)) = Fin 0.750737)
     ZHL_16C_N2_16A_HE_VALUES"
  by (simp add: ZHL_16C_N2_16A_HE_VALUES_def zhl_def Compartment_recalculate_def tissue_def gf3070_def
      Compartment_ceiling_def BuhlmannConfig_default_def
      minTolerableAmbPressureCalc_def mValue_def weightedZhlParams_def weightedParam_def
      maxGfAdjustedZhlParams_def Let_def compartmentInertPressure_def
      compartmentPressureDeltaHaldane_def inspiredPartialPressures_def gasPressuresCompound_def
      ALVEOLI_WATER_VAPOR_PRESSURE_def asMinutes_def Gas_air_def)

lemma surface_again_table:
  "list_all (\<lambda>p. \<forall>n m tot r1 r2.
      Compartment_ceiling (Compartment_recalculate (tissue n m (Fin 0.750737) tot r1 r2 p)
             \<lparr>rd_depth = Fin 0, rd_time = Time_zero, rd_gas = Gas_air\<rparr> (Fin 70) (Fin 1013)) = Fin 0)
     ZHL_16C_N2_16A_HE_VALUES"
  by (simp add: ZHL_16C_N2_16A_HE_VALUES_def zhl_def Compartment_recalculate_def tissue_def gf3070_def
      Compartment_ceiling_def BuhlmannConfig_default_def Time_zero_def
      minTolerableAmbPressureCalc_def mValue_def weightedZhlParams_def weightedParam_def
      maxGfAdjustedZhlParams_def Let_def compartmentInertPressure_def
      compartmentPressureDeltaHaldane_def inspiredPartialPressures_def gasPressuresCompound_def
      ALVEOLI_WATER_VAPOR_PRESSURE_def asMinutes_def Gas_air_def)

lemma isFinE: "isFin v \<Longrightarrow> (\<And>x. v = Fin x \<Longrightarrow> P) \<Longrightarrow> P"
  by (cases v) auto

lemma halftimes_table:
  "list_all (\<lambda>p. isFin (heht p) \<and> nlt (Fin 0) (heht p) \<and> isFin (n2ht p) \<and> nlt (Fin 0) (n2ht p))
     ZHL_16C_N2_16A_HE_VALUES"
  by (simp add: ZHL_16C_N2_16A_HE_VALUES_def zhl_def)

lemma loaded_tissue:
  "loaded c \<Longrightarrow> \<exists>x. c = tissue (no c) (minTolerableAmbPressure c) (Fin x) (totalIp c) (mValueRaw c)
                         (mValueCalc c) (params c)"
  by (cases c) (auto simp: loaded_def tissue_def elim: isFinE)

lemma loaded_new: "p \<in> set ZHL_16C_N2_16A_HE_VALUES \<Longrightarrow> loaded (Compartment_new n p gf3070)"
  by (simp add: loaded_def Compartment_new_def Let_def getAirInspiredPartialPressures_def
      Depth_zero_def gf3070_def BuhlmannConfig_default_def)

lemma loaded_recalculate:
  assumes "loaded c" "t = PInf \<or> isFin t"
  shows "loaded (Compartment_recalculate c \<lparr>rd_depth = Fin d, rd_time = t, rd_gas = Gas_air\<rparr> mg (Fin 1013))"
proof -
  obtain x where x: "heIp c = Fin 0" "n2Ip c = Fin x" "params c \<in> set ZHL_16C_N2_16A_HE_VALUES"
    "modelConfig c = gf3070" using assms(1) by (auto simp: loaded_def elim: isFinE)
  have "isFin (heht (params c)) \<and> nlt (Fin 0) (heht (params c)) \<and>
        isFin (n2ht (params c)) \<and> nlt (Fin 0) (n2ht (params c))"
    using halftimes_table x(3) by (auto simp: list_all_iff)
  then obtain a b where h: "heht (params c) = Fin a" "0 < a" "n2ht (params c) = Fin b" "0 < b"
    by (auto elim!: isFinE)
  show ?thesis using assms(2) x h
    by (auto simp: loaded_def Compartment_recalculate_def Let_def compartmentInertPressure_def
        compartmentPressureDeltaHaldane_def inspiredPartialPressures_def gasPressuresCompound_def
        ALVEOLI_WATER_VAPOR_PRESSURE_def asMinutes_def Gas_air_def elim!: isFinE)
qed

lemma loaded_deep:
  assumes "loaded c"
  shows "ngt (Compartment_ceiling (Compartment_recalculate c
            \<lparr>rd_depth = Fin 40, rd_time = PInf, rd_gas = Gas_air\<rparr> (Fin 70) (Fin 1013))) (Fin 0)"
proof -
  obtain x where "c = tissue (no c) (minTolerableAmbPressure c) (Fin x) (totalIp c) (mValueRaw c)
                         (mValueCalc c) (params c)" using loaded_tissue[OF assms] by blast
  moreover have "params c \<in> set ZHL_16C_N2_16A_HE_VALUES" using assms by (simp add: loaded_def)
  ultimately show ?thesis using deep_table unfolding list_all_iff by metis
qed

lemma loaded_surface:
  assumes "loaded c"
  shows "Compartment_ceiling (Compartment_recalculate c
            \<lparr>rd_depth = Fin 0, rd_time = PInf, rd_gas = Gas_air\<rparr> (Fin 70) (Fin 1013)) = Fin 0"
    and "n2Ip (Compartment_recalculate c
            \<lparr>rd_depth = Fin 0, rd_time = PInf, rd_gas = Gas_air\<rparr> (Fin 70) (Fin 1013)) = Fin 0.750737"
proof -
  obtain x where "c = tissue (no c) (minTolerableAmbPressure c) (Fin x) (totalIp c) (mValueRaw c)
                         (mValueCalc c) (params c)" using loaded_tissue[OF assms] by blast
  moreover have "params c \<in> set ZHL_16C_N2_16A_HE_VALUES" using assms by (simp add: loaded_def)
  ultimately show "Compartment_ceiling (Compartment_recalculate c
            \<lparr>rd_depth = Fin 0, rd_time = PInf, rd_gas = Gas_air\<rparr> (Fin 70) (Fin 1013)) = Fin 0"
    and "n2Ip (Compartment_recalculate c
            \<lparr>rd_depth = Fin 0, rd_time = PInf, rd_gas = Gas_air\<rparr> (Fin 70) (Fin 1013)) = Fin 0.750737"
    using surface_table unfolding list_all_iff by metis+
qed

lemma loaded_surface_again:
  assumes "loaded c" "n2Ip c = Fin 0.750737"
  shows "Compartment_ceiling (Compartment_recalculate c
            \<lparr>rd_depth = Fin 0, rd_time = Time_zero, rd_gas = Gas_air\<rparr> (Fin 70) (Fin 1013)) = Fin 0"
proof -
  have "c = tissue (no c) (minTolerableAmbPressure c) (Fin 0.750737) (totalIp c) (mValueRaw c)
                         (mValueCalc c) (params c)"
    using loaded_tissue[OF assms(1)] assms(2) by (metis Compartment.select_convs(4) tissue_def)
  moreover have "params c \<in> set ZHL_16C_N2_16A_HE_VALUES" using assms by (simp add: loaded_def)
  ultimately show ?thesis using surface_again_table unfolding list_all_iff by metis
qed

lemma ceiling_ready:
  assumes "ready N h b"
  shows "\<exists>lc\<in>set (compartments (models h b)).
           ceiling_model b h =
             Some (Ret (roundCeiling (configuration (models h b)) (Compartment_ceiling (comps h lc))) h)"
proof -
  obtain lc where lc: "leadingComp b h = Some lc"
    using leadingComp_total assms by (auto simp: ready_def)
  have "ceiling_model b h = ceilingSim b h" using assms by (intro ceiling_plain) (simp add: ready_def)
  then have "ceiling_model b h =
      Some (Ret (roundCeiling (configuration (models h b)) (Compartment_ceiling (comps h lc))) h)"
    using lc by (simp add: ceilingSim_def actualCeiling_def return_def)
  then show ?thesis using leadingComp_mem[OF lc] by blast
qed

lemma calcMaxSlopedGF_with_cache:
  assumes "cl b h = Some (Ret c h1)" "calcMaxSlopedGF_with cl b d h = Some (Ret g h')"
  shows "gfLowDepth (state (models h' b)) =
           (if ngt c Depth_zero \<and> gfLowDepth (state (models h1 b)) = None
            then Some (gfLowDepthLoop h1
                         (ndiv (surfacePressureValue (configuration (models h1 b))) (Fin 1000))
                         (ndiv (gfLow (configuration (models h1 b))) (Fin 100)) (Fin 0)
                         (compartments (models h1 b)))
            else gfLowDepth (state (models h1 b)))"
  using assms unfolding calcMaxSlopedGF_with_def
  by (auto simp: Let_def return_def set_state_def split: if_splits option.splits)

lemma calcMaxSlopedGF_with_out:
  assumes "cl b h = Some (Ret c h)" "\<not> ngt c Depth_zero"
  shows "calcMaxSlopedGF_with cl b d h = Some (Ret (gfHigh (configuration (models h b))) h)"
  using assms unfolding calcMaxSlopedGF_with_def by (simp add: Let_def return_def)

lemma calcMaxSlopedGF_with_in:
  assumes "cl b h = Some (Ret c h)" "ngt c Depth_zero"
  shows "\<exists>mg h2. calcMaxSlopedGF_with cl b d h = Some (Ret mg h2) \<and>
           gfLowDepth (state (models h2 b)) \<noteq> None"
  using assms unfolding calcMaxSlopedGF_with_def
  by (auto simp: Let_def return_def set_state_def split: option.splits)

lemma recalculateCompartments_in_deco:
  assumes "ready N h b" "distinct (compartments (models h b))"
    and "\<not> neq (gfHigh (configuration (models h b))) (gfLow (configuration (models h b)))"
    and "\<not> roundCeilingValue (configuration (models h b))"
    and "\<forall>c\<in>set (compartments (models h b)).
           ngt (Compartment_ceiling (Compartment_recalculate (comps h c) r
                  (gfHigh (configuration (models h b)))
                  (surfacePressureValue (configuration (models h b))))) (Fin 0)"
  shows "\<exists>h'. recalculateCompartments_with ceiling_model b r h = Some (Ret () h') \<and>
              gfLowDepth (state (models h' b)) \<noteq> None"
proof -
  let ?cfg = "configuration (models h b)"
  let ?cs = "compartments (models h b)"
  let ?h1 = "recalculateEach ?cs r (gfHigh ?cfg) (surfacePressureValue ?cfg) h"
  have p1: "pres N h ?h1" "keeps b h ?h1"
    using assms(1) by (auto simp: ready_def own_def core_keeps intro!: recalculateEach_pres)
  have r1: "ready N ?h1 b" using ready_step[OF assms(1) p1] .
  have m1: "models ?h1 = models h" by simp
  obtain lc where lc: "lc \<in> set ?cs"
    "ceiling_model b ?h1 = Some (Ret (roundCeiling ?cfg (Compartment_ceiling (comps ?h1 lc))) ?h1)"
    using ceiling_ready[OF r1] unfolding m1 by blast
  have "comps ?h1 lc = Compartment_recalculate (comps h lc) r (gfHigh ?cfg) (surfacePressureValue ?cfg)"
    using recalculateEach_comps[OF assms(2) lc(1)] .
  then have pos: "ngt (roundCeiling ?cfg (Compartment_ceiling (comps ?h1 lc))) Depth_zero"
    using assms(4,5) lc(1) by (simp add: roundCeiling_def Depth_zero_def)
  obtain mg h2 where c: "calcMaxSlopedGF_with ceiling_model b (rd_depth r) ?h1 = Some (Ret mg h2)"
    "gfLowDepth (state (models h2 b)) \<noteq> None"
    using calcMaxSlopedGF_with_in[where cl = ceiling_model and b = b, OF lc(2) pos] by blast
  have "pres N ?h1 h2 \<and> core b ?h1 h2"
    using calcMaxSlopedGF_with_step[OF ceiling_query_ok ready_own[OF r1] c(1)] by simp
  then have "ready N h2 b" using ready_step[OF r1] core_keeps by blast
  then obtain l2 where "leadingComp b h2 = Some l2"
    using leadingComp_total by (auto simp: ready_def)
  then show ?thesis using assms(3) c
    by (simp add: recalculateCompartments_with_def Let_def return_def set_comp_def)
qed

lemma recalculateCompartments_out_of_deco:
  assumes "ready N h b" "distinct (compartments (models h b))"
    and "\<forall>c\<in>set (compartments (models h b)).
           Compartment_ceiling (Compartment_recalculate (comps h c) r
                  (gfHigh (configuration (models h b)))
                  (surfacePressureValue (configuration (models h b)))) = Fin 0"
  shows "\<exists>h'. recalculateCompartments_with ceiling_model b r h = Some (Ret () h') \<and>
           models h' = models h \<and>
           (\<forall>c\<in>set (compartments (models h b)).
              comps h' c = Compartment_recalculate (comps h c) r
                  (gfHigh (configuration (models h b)))
                  (surfacePressureValue (configuration (models h b)))
            \<or> comps h' c = Compartment_recalculate
                  (Compartment_recalculate (comps h c) r
                     (gfHigh (configuration (models h b)))
                     (surfacePressureValue (configuration (models h b))))
                  (r\<lparr>rd_time := Time_zero\<rparr>)
                  (gfHigh (configuration (models h b)))
                  (surfacePressureValue (configuration (models h b))))"
proof -
  let ?cfg = "configuration (models h b)"
  let ?cs = "compartments (models h b)"
  let ?h1 = "recalculateEach ?cs r (gfHigh ?cfg) (surfacePressureValue ?cfg) h"
  have e1: "\<forall>c\<in>set ?cs. comps ?h1 c =
              Compartment_recalculate (comps h c) r (gfHigh ?cfg) (surfacePressureValue ?cfg)"
    using recalculateEach_comps[OF assms(2)] by blast
  have m1: "models ?h1 = models h" by simp
  show ?thesis
  proof (cases "neq (gfHigh ?cfg) (gfLow ?cfg)")
    case True
    then show ?thesis using e1
      by (simp add: recalculateCompartments_with_def Let_def return_def)
  next
    case False
    have p1: "pres N h ?h1" "keeps b h ?h1"
      using assms(1) by (auto simp: ready_def own_def core_keeps intro!: recalculateEach_pres)
    have r1: "ready N ?h1 b" using ready_step[OF assms(1) p1] .
    obtain lc where lc: "lc \<in> set ?cs"
      "ceiling_model b ?h1 = Some (Ret (roundCeiling ?cfg (Compartment_ceiling (comps ?h1 lc))) ?h1)"
      using ceiling_ready[OF r1] unfolding m1 by blast
    have z: "\<not> ngt (roundCeiling ?cfg (Compartment_ceiling (comps ?h1 lc))) Depth_zero"
      using assms(3) lc(1) e1 by (simp add: roundCeiling_def Depth_zero_def ngt_def)
    have c: "calcMaxSlopedGF_with ceiling_model b (rd_depth r) ?h1 = Some (Ret (gfHigh ?cfg) ?h1)"
      using calcMaxSlopedGF_with_out[where cl = ceiling_model and b = b, OF lc(2) z] by simp
    have "compartments (models ?h1 b) \<noteq> []" using r1 by (simp add: ready_def)
    then obtain l2 where l2: "leadingComp b ?h1 = Some l2"
      using leadingComp_total[of ?h1 b] by blast
    have "recalculateCompartments_with ceiling_model b r h =
            Some (Ret () (set_comp l2 (Compartment_recalculate (comps ?h1 l2) (r\<lparr>rd_time := Time_zero\<rparr>)
                                         (gfHigh ?cfg) (surfacePressureValue ?cfg)) ?h1))"
      using False c l2 by (simp add: recalculateCompartments_with_def Let_def return_def)
    moreover have "l2 \<in> set ?cs" using leadingComp_mem[OF l2] by simp
    ultimately show ?thesis using e1 by (auto simp: set_comp_def)
  qed
qed

lemma record_states:
  fixes h :: heap
  defines "h3 d t g b \<equiv> set_state b (\<lambda>s. s\<lparr>time := nadd (time s) t\<rparr>)
              (set_state b (\<lambda>s. s\<lparr>gas := g\<rparr>) (set_state b (\<lambda>s. s\<lparr>depth := d\<rparr>) h))"
  assumes "ready N h b"
  shows "ready N (h3 d t g b) b" "comps (h3 d t g b) = comps h"
    "configuration (models (h3 d t g b) b) = configuration (models h b)"
    "compartments (models (h3 d t g b) b) = compartments (models h b)"
    "gfLowDepth (state (models (h3 d t g b) b)) = gfLowDepth (state (models h b))"
    "sim (models (h3 d t g b) b) = sim (models h b)"
proof -
  have nb: "N \<le> b" using assms(2) by (simp add: ready_def own_def)
  have p: "pres N h (h3 d t g b) \<and> keeps b h (h3 d t g b)"
    using nb by (auto simp: pres_def keeps_def set_state_def h3_def)
  show "ready N (h3 d t g b) b" using ready_step[OF assms(2)] p by blast
qed (simp_all add: h3_def set_state_def)

lemma record_in_deco:
  assumes "ready N h b" "distinct (compartments (models h b))"
    and "\<not> nlt d Depth_zero" "\<not> ngt d (Fin 200)"
    and "\<not> neq (gfHigh (configuration (models h b))) (gfLow (configuration (models h b)))"
    and "\<not> roundCeilingValue (configuration (models h b))"
    and "\<forall>c\<in>set (compartments (models h b)).
           ngt (Compartment_ceiling (Compartment_recalculate (comps h c)
                  \<lparr>rd_depth = d, rd_time = t, rd_gas = g\<rparr>
                  (gfHigh (configuration (models h b)))
                  (surfacePressureValue (configuration (models h b))))) (Fin 0)"
  shows "\<exists>h'. record_model b d t g h = Some (Ret () h') \<and>
              gfLowDepth (state (models h' b)) \<noteq> None"
proof -
  let ?h3 = "set_state b (\<lambda>s. s\<lparr>time := nadd (time s) t\<rparr>)
              (set_state b (\<lambda>s. s\<lparr>gas := g\<rparr>) (set_state b (\<lambda>s. s\<lparr>depth := d\<rparr>) h))"
  let ?r = "\<lparr>rd_depth = d, rd_time = t, rd_gas = g\<rparr>"
  note s = record_states[OF assms(1), where d = d and t = t and g = g]
  obtain h4 where h4: "recalculateCompartments_with ceiling_model b ?r ?h3 = Some (Ret () h4)"
    "gfLowDepth (state (models h4 b)) \<noteq> None"
    using recalculateCompartments_in_deco[OF s(1), of ?r] assms(2,5,6,7) unfolding s by blast
  have "recalculate_with ceiling_model b ?r ?h3 =
          Some (Ret () (if \<not> sim (models h4 b) then recalculateOxTox b ?r h4 else h4))"
    using h4(1) by (simp add: recalculate_with_def return_def)
  moreover have "gfLowDepth (state (models (if \<not> sim (models h4 b) then recalculateOxTox b ?r h4 else h4) b))
                   \<noteq> None"
    using h4(2) by (simp add: recalculateOxTox_def Let_def)
  ultimately show ?thesis
    using validateDepth_ok[OF assms(3,4)]
    by (simp add: record_model_def record_with_def Let_def)
qed

lemma record_out_of_deco:
  assumes "ready N h b" "distinct (compartments (models h b))"
    and "\<not> nlt d Depth_zero" "\<not> ngt d (Fin 200)"
    and "\<forall>c\<in>set (compartments (models h b)).
           Compartment_ceiling (Compartment_recalculate (comps h c)
                  \<lparr>rd_depth = d, rd_time = t, rd_gas = g\<rparr>
                  (gfHigh (configuration (models h b)))
                  (surfacePressureValue (configuration (models h b)))) = Fin 0"
  shows "\<exists>h'. record_model b d t g h = Some (Ret () h') \<and>
           (\<forall>c\<in>set (compartments (models h b)).
              comps h' c = Compartment_recalculate (comps h c) \<lparr>rd_depth = d, rd_time = t, rd_gas = g\<rparr>
                  (gfHigh (configuration (models h b)))
                  (surfacePressureValue (configuration (models h b)))
            \<or> comps h' c = Compartment_recalculate
                  (Compartment_recalculate (comps h c) \<lparr>rd_depth = d, rd_time = t, rd_gas = g\<rparr>
                     (gfHigh (configuration (models h b)))
                     (surfacePressureValue (configuration (models h b))))
                  \<lparr>rd_depth = d, rd_time = Time_zero, rd_gas = g\<rparr>
                  (gfHigh (configuration (models h b)))
                  (surfacePressureValue (configuration (models h b))))"
proof -
  let ?h3 = "set_state b (\<lambda>s. s\<lparr>time := nadd (time s) t\<rparr>)
              (set_state b (\<lambda>s. s\<lparr>gas := g\<rparr>) (set_state b (\<lambda>s. s\<lparr>depth := d\<rparr>) h))"
  let ?r = "\<lparr>rd_depth = d, rd_time = t, rd_gas = g\<rparr>"
  note s = record_states[OF assms(1), where d = d and t = t and g = g]
  obtain h4 where h4: "recalculateCompartments_with ceiling_model b ?r ?h3 = Some (Ret () h4)"
    "\<forall>c\<in>set (compartments (models h b)).
              comps h4 c = Compartment_recalculate (comps h c) ?r
                  (gfHigh (configuration (models h b)))
                  (surfacePressureValue (configuration (models h b)))
            \<or> comps h4 c = Compartment_recalculate
                  (Compartment_recalculate (comps h c) ?r
                     (gfHigh (configuration (models h b)))
                     (surfacePressureValue (configuration (models h b))))
                  (?r\<lparr>rd_time := Time_zero\<rparr>)
                  (gfHigh (configuration (models h b)))
                  (surfacePressureValue (configuration (models h b)))"
    using recalculateCompartments_out_of_deco[OF s(1), of ?r] assms(2,5) unfolding s by blast
  have "recalculate_with ceiling_model b ?r ?h3 =
          Some (Ret () (if \<not> sim (models h4 b) then recalculateOxTox b ?r h4 else h4))"
    using h4(1) by (simp add: recalculate_with_def return_def)
  moreover have "comps (if \<not> sim (models h4 b) then recalculateOxTox b ?r h4 else h4) = comps h4"
    by (simp add: recalculateOxTox_def Let_def)
  ultimately show ?thesis
    using validateDepth_ok[OF assms(3,4)] h4(2)
    by (simp add: record_model_def record_with_def Let_def)
qed

lemma sloped_slopedHeap: "sloped slopedHeap"
proof -
  have "loaded (comps slopedHeap c)" if "c \<in> set [2..<18]" for c
  proof -
    have "c = 2 + (c - 2)" "c - 2 < 16" using that by auto
    then obtain k where k: "c = 2 + k" "k < 16" by blast
    show ?thesis using newHeap_comps[OF k(2), of gf3070] k table_length loaded_new
      unfolding slopedHeap_def by (metis nth_mem)
  qed
  then show ?thesis using own_newHeap[of gf3070]
    by (simp add: sloped_def slopedHeap_def ready_def newHeap_model gf3070_def BuhlmannConfig_default_def)
qed

lemma sloped_record:
  assumes "sloped h" "record_model 0 (Fin d) t Gas_air h = Some (Ret u h')" "t = PInf \<or> isFin t"
  shows "sloped h'"
proof -
  have r: "ready 0 h 0" and cf: "configuration (models h 0) = gf3070"
    and di: "distinct (compartments (models h 0))"
    and lo: "\<forall>c\<in>set (compartments (models h 0)). loaded (comps h c)"
    using assms(1) by (simp_all add: sloped_def)
  have k: "pres 0 h h' \<and> keeps 0 h h'" using record_model_step[OF ready_own[OF r] assms(2)] by simp
  have r': "ready 0 h' 0" using ready_step[OF r] k by blast
  have e: "configuration (models h' 0) = gf3070" "compartments (models h' 0) = compartments (models h 0)"
    using k cf by (simp_all add: keeps_def)
  have sp: "surfacePressureValue gf3070 = Fin 1013" by (simp add: gf3070_def BuhlmannConfig_default_def)
  have "loaded (comps h' c)" if "c \<in> set (compartments (models h 0))" for c
  proof -
    have l: "loaded (comps h c)" using lo that by blast
    have z: "Time_zero = PInf \<or> isFin Time_zero" by (simp add: Time_zero_def)
    note l1 = loaded_recalculate[OF l assms(3), where d = d]
    show ?thesis
      using record_model_comps[OF ready_own[OF r] di assms(2) that] l1 loaded_recalculate[OF l1 z, where d = d]
      unfolding cf sp by auto
  qed
  then show ?thesis using r' e di by (simp add: sloped_def)
qed

lemma sloped_deep:
  assumes "sloped h"
  shows "\<exists>h'. record_model 0 (Fin 40) PInf Gas_air h = Some (Ret () h') \<and>
           gfLowDepth (state (models h' 0)) \<noteq> None"
proof -
  have r: "ready 0 h 0" and cf: "configuration (models h 0) = gf3070"
    and di: "distinct (compartments (models h 0))"
    and lo: "\<forall>c\<in>set (compartments (models h 0)). loaded (comps h c)"
    using assms(1) by (simp_all add: sloped_def)
  have g: "gfHigh gf3070 = Fin 70" "gfLow gf3070 = Fin 30" "surfacePressureValue gf3070 = Fin 1013"
    "\<not> roundCeilingValue gf3070"
    by (simp_all add: gf3070_def BuhlmannConfig_default_def)
  have "\<forall>c\<in>set (compartments (models h 0)).
           ngt (Compartment_ceiling (Compartment_recalculate (comps h c)
                  \<lparr>rd_depth = Fin 40, rd_time = PInf, rd_gas = Gas_air\<rparr>
                  (gfHigh (configuration (models h 0)))
                  (surfacePressureValue (configuration (models h 0))))) (Fin 0)"
    unfolding cf g using lo loaded_deep by blast
  then show ?thesis
    using record_in_deco[OF r di, where d = "Fin 40" and t = PInf and g = Gas_air] g
    unfolding cf by (simp add: Depth_zero_def ngt_def)
qed

lemma sloped_surface:
  assumes "sloped h"
  shows "\<exists>h'. record_model 0 (Fin 0) PInf Gas_air h = Some (Ret () h') \<and>
           ceiling_model 0 h' = Some (Ret (Fin 0) h') \<and> inDeco 0 h' = Some (Ret False h')"
proof -
  have r: "ready 0 h 0" and cf: "configuration (models h 0) = gf3070"
    and di: "distinct (compartments (models h 0))"
    and lo: "\<forall>c\<in>set (compartments (models h 0)). loaded (comps h c)"
    using assms(1) by (simp_all add: sloped_def)
  have g: "gfHigh gf3070 = Fin 70" "gfLow gf3070 = Fin 30" "surfacePressureValue gf3070 = Fin 1013"
    "\<not> roundCeilingValue gf3070" "ceilingTypeValue gf3070 = Actual"
    by (simp_all add: gf3070_def BuhlmannConfig_default_def)
  let ?r = "\<lparr>rd_depth = Fin 0, rd_time = PInf, rd_gas = Gas_air\<rparr>"
  let ?rz = "\<lparr>rd_depth = Fin 0, rd_time = Time_zero, rd_gas = Gas_air\<rparr>"
  have z: "\<forall>c\<in>set (compartments (models h 0)).
             Compartment_ceiling (Compartment_recalculate (comps h c) ?r (Fin 70) (Fin 1013)) = Fin 0"
    using lo loaded_surface(1) by blast
  obtain h' where h': "record_model 0 (Fin 0) PInf Gas_air h = Some (Ret () h')"
    "\<forall>c\<in>set (compartments (models h 0)).
        comps h' c = Compartment_recalculate (comps h c) ?r (Fin 70) (Fin 1013)
      \<or> comps h' c = Compartment_recalculate
                  (Compartment_recalculate (comps h c) ?r (Fin 70) (Fin 1013)) ?rz (Fin 70) (Fin 1013)"
    using record_out_of_deco[OF r di, where d = "Fin 0" and t = PInf and g = Gas_air] z
    unfolding cf g by (auto simp: Depth_zero_def ngt_def)
  have s': "sloped h'" using sloped_record[OF assms h'(1)] by simp
  then have r': "ready 0 h' 0" and cf': "configuration (models h' 0) = gf3070" by (simp_all add: sloped_def)
  have k: "keeps 0 h h'" using record_model_step[OF ready_own[OF r] h'(1)] by simp
  then have cs: "compartments (models h' 0) = compartments (models h 0)" by (simp add: keeps_def)
  have c0: "Compartment_ceiling (comps h' c) = Fin 0" if "c \<in> set (compartments (models h 0))" for c
  proof -
    have l: "loaded (comps h c)" using lo that by blast
    have inf: "PInf = PInf \<or> isFin PInf" by simp
    have l1: "loaded (Compartment_recalculate (comps h c) ?r (Fin 70) (Fin 1013))"
      using loaded_recalculate[OF l inf, where d = 0] .
    show ?thesis
      using h'(2) that loaded_surface[OF l] loaded_surface_again[OF l1] by auto
  qed
  obtain lc where lc: "lc \<in> set (compartments (models h 0))"
    "ceiling_model 0 h' = Some (Ret (roundCeiling gf3070 (Compartment_ceiling (comps h' lc))) h')"
    using ceiling_ready[OF r'] unfolding cs cf' by blast
  have c: "ceiling_model 0 h' = Some (Ret (Fin 0) h')"
    using lc c0 g by (simp add: roundCeiling_def)
  have "inDeco 0 h' = Some (Ret False h')"
    using c cf' g by (simp add: inDeco_def return_def ngt_def Depth_zero_def)
  then show ?thesis using h'(1) c by blast
qed

lemma gfLowDepthLoop_cong:
  "\<forall>c\<in>set cs. comps h' c = comps h c \<Longrightarrow>
   gfLowDepthLoop h' sp gf m cs = gfLowDepthLoop h sp gf m cs"
  by (induction cs arbitrary: m) (simp_all add: Let_def)

lemma own_model: "own 0 h a \<Longrightarrow> pres (nxt h) h h' \<Longrightarrow> models h' a = models h a"
  by (simp add: own_def pres_def)

lemma keeps_cache:
  "keeps a h h' \<Longrightarrow> gfLowDepth (state (models h a)) = Some v \<Longrightarrow>
   gfLowDepth (state (models h' a)) = Some v"
  by (auto simp: keeps_def)





lemma record_model_some:
  assumes "ready N h b"
  shows "\<exists>out. record_model b d t g h = Some out"
proof (cases "nlt d Depth_zero \<or> ngt d (Fin 200)")
  case True
  then show ?thesis
    by (auto simp: record_model_def record_with_def validateDepth_def throw_def)
next
  case False
  then show ?thesis
    using record_with_total[OF ceiling_query_ok ceiling_returns_here assms, of d t g]
    unfolding record_model_def by auto
qed

lemma inDeco_actual:
  assumes "ready N h b" "ceilingTypeValue (configuration (models h b)) = Actual"
  shows "\<exists>d. inDeco b h = Some (Ret d h)"
proof -
  obtain c where "ceiling_model b h = Some (Ret c h)"
    using ceiling_returns_here assms(1) unfolding returns_here_def by blast
  then show ?thesis using assms(2) by (simp add: inDeco_def return_def)
qed

lemma ndlLoop_some:
  "ready N h s \<Longrightarrow> ceilingTypeValue (configuration (models h s)) = Actual \<Longrightarrow>
   \<exists>out. ndlLoop a s iv i h = Some out"
proof (induction "99 - i" arbitrary: i h)
  case 0
  then show ?case by (subst ndlLoop.simps) (simp add: NDL_CUT_OFF_MINS_def return_def)
next
  case (Suc k)
  then have i: "i < 99" by simp
  obtain out1 where r: "record_model s (depth (state (models h a))) iv (gas (state (models h a))) h
                         = Some out1"
    using record_model_some[OF Suc.prems(1)] by blast
  show ?case
  proof (cases out1)
    case (Throw e h1)
    then show ?thesis by (subst ndlLoop.simps) (simp add: i NDL_CUT_OFF_MINS_def r)
  next
    case (Ret u h1)
    have p: "pres N h h1 \<and> keeps s h h1"
      using record_model_step[OF ready_own[OF Suc.prems(1)] r] Ret by simp
    have r1: "ready N h1 s" using ready_step[OF Suc.prems(1)] p by blast
    have c1: "ceilingTypeValue (configuration (models h1 s)) = Actual"
      using p Suc.prems(2) by (simp add: keeps_def)
    obtain d where d: "inDeco s h1 = Some (Ret d h1)" using inDeco_actual[OF r1 c1] by blast
    have k: "k = 99 - (i + 1)" using Suc.hyps(2) by simp
    obtain out where "ndlLoop a s iv (i + 1) h1 = Some out"
      using Suc.hyps(1)[OF k r1 c1] by blast
    then show ?thesis
      by (subst ndlLoop.simps) (simp add: i NDL_CUT_OFF_MINS_def r Ret d return_def)
  qed
qed

lemma ndl_some:
  assumes "ready 0 h a" "ceilingTypeValue (configuration (models h a)) = Actual"
    and "validate (configuration (models h a)) = None"
  shows "\<exists>out. ndl a h = Some out"
proof -
  obtain d where d: "inDeco a h = Some (Ret d h)" using inDeco_actual[OF assms(1,2)] by blast
  obtain h2 where f: "fork a h = Some (Ret (nxt h) h2)" "own (nxt h) h2 (nxt h)"
    "sim (models h2 (nxt h))" "configuration (models h2 (nxt h)) = configuration (models h a)"
    "map (comps h2) (compartments (models h2 (nxt h))) = map (comps h) (compartments (models h a))"
    using fork_returns[OF ready_own[OF assms(1)] assms(3)] by auto
  have ne: "compartments (models h a) \<noteq> []" using assms(1) by (simp add: ready_def)
  have r2: "ready (nxt h) h2 (nxt h)" using ready_fork[OF f(2,3,5) ne] .
  have c2: "ceilingTypeValue (configuration (models h2 (nxt h))) = Actual"
    using f(4) assms(2) by simp
  obtain out where "ndlLoop a (nxt h) (Time_fromMinutes (Fin 1)) 0 h2 = Some out"
    using ndlLoop_some[OF r2 c2] by blast
  then show ?thesis using d f(1) by (cases d) (simp_all add: ndl_def return_def)
qed


lemma record_flat:
  assumes "ready N h b" "distinct (compartments (models h b))"
    and "\<not> nlt d Depth_zero" "\<not> ngt d (Fin 200)"
    and "neq (gfHigh (configuration (models h b))) (gfLow (configuration (models h b)))"
  shows "\<exists>h'. record_model b d t g h = Some (Ret () h') \<and>
           (\<forall>c\<in>set (compartments (models h b)).
              comps h' c = Compartment_recalculate (comps h c) \<lparr>rd_depth = d, rd_time = t, rd_gas = g\<rparr>
                  (gfHigh (configuration (models h b)))
                  (surfacePressureValue (configuration (models h b))))"
proof -
  let ?h3 = "set_state b (\<lambda>s. s\<lparr>time := nadd (time s) t\<rparr>)
              (set_state b (\<lambda>s. s\<lparr>gas := g\<rparr>) (set_state b (\<lambda>s. s\<lparr>depth := d\<rparr>) h))"
  let ?r = "\<lparr>rd_depth = d, rd_time = t, rd_gas = g\<rparr>"
  let ?cfg = "configuration (models h b)"
  let ?h4 = "recalculateEach (compartments (models h b)) ?r (gfHigh ?cfg) (surfacePressureValue ?cfg) ?h3"
  note s = record_states[OF assms(1), where d = d and t = t and g = g]
  have "recalculateCompartments_with ceiling_model b ?r ?h3 = Some (Ret () ?h4)"
    using assms(5) unfolding recalculateCompartments_with_def s by (simp add: Let_def return_def)
  then have "recalculate_with ceiling_model b ?r ?h3 =
          Some (Ret () (if \<not> sim (models ?h4 b) then recalculateOxTox b ?r ?h4 else ?h4))"
    by (simp add: recalculate_with_def return_def)
  moreover have "comps (if \<not> sim (models ?h4 b) then recalculateOxTox b ?r ?h4 else ?h4) = comps ?h4"
    by (simp add: recalculateOxTox_def Let_def)
  moreover have "\<forall>c\<in>set (compartments (models h b)).
      comps ?h4 c = Compartment_recalculate (comps h c) ?r (gfHigh ?cfg) (surfacePressureValue ?cfg)"
    using recalculateEach_comps[OF assms(2), where h = ?h3] s(2) by simp
  ultimately show ?thesis
    using validateDepth_ok[OF assms(3,4)]
    by (simp add: record_model_def record_with_def Let_def)
qed

lemma deep_table_default:
  "list_all (\<lambda>p. \<forall>n.
      ngt (Compartment_ceiling (Compartment_recalculate (Compartment_new n p BuhlmannConfig_default)
             \<lparr>rd_depth = Fin 40, rd_time = PInf, rd_gas = Gas_air\<rparr> (Fin 100) (Fin 1013))) (Fin 0))
     ZHL_16C_N2_16A_HE_VALUES"
  by (simp add: ZHL_16C_N2_16A_HE_VALUES_def zhl_def Compartment_recalculate_def Compartment_new_def
      getAirInspiredPartialPressures_def Depth_zero_def
      Compartment_ceiling_def BuhlmannConfig_default_def
      minTolerableAmbPressureCalc_def mValue_def weightedZhlParams_def weightedParam_def
      maxGfAdjustedZhlParams_def Let_def compartmentInertPressure_def
      compartmentPressureDeltaHaldane_def inspiredPartialPressures_def gasPressuresCompound_def
      ALVEOLI_WATER_VAPOR_PRESSURE_def asMinutes_def Gas_air_def ngt_def)

lemma atRest_deep:
  assumes "ready 0 h 0" "atRest h 0" "distinct (compartments (models h 0))"
  shows "\<exists>h'. record_model 0 (Fin 40) PInf Gas_air h = Some (Ret () h') \<and>
           inDeco 0 h' = Some (Ret True h') \<and> own 0 h' 0"
proof -
  have cf: "configuration (models h 0) = BuhlmannConfig_default" using assms(2) by (simp add: atRest_def)
  have g: "gfHigh BuhlmannConfig_default = Fin 100" "gfLow BuhlmannConfig_default = Fin 100"
    "surfacePressureValue BuhlmannConfig_default = Fin 1013"
    "\<not> roundCeilingValue BuhlmannConfig_default" "ceilingTypeValue BuhlmannConfig_default = Actual"
    by (simp_all add: BuhlmannConfig_default_def)
  let ?r = "\<lparr>rd_depth = Fin 40, rd_time = PInf, rd_gas = Gas_air\<rparr>"
  obtain h' where h': "record_model 0 (Fin 40) PInf Gas_air h = Some (Ret () h')"
    "\<forall>c\<in>set (compartments (models h 0)).
        comps h' c = Compartment_recalculate (comps h c) ?r (Fin 100) (Fin 1013)"
    using record_flat[OF assms(1,3), where d = "Fin 40" and t = PInf and g = Gas_air]
    unfolding cf g by (auto simp: Depth_zero_def ngt_def)
  have k: "pres 0 h h' \<and> keeps 0 h h'" using record_model_step[OF ready_own[OF assms(1)] h'(1)] by simp
  have r': "ready 0 h' 0" using ready_step[OF assms(1)] k by blast
  have e: "configuration (models h' 0) = BuhlmannConfig_default"
    "compartments (models h' 0) = compartments (models h 0)"
    using k cf by (simp_all add: keeps_def)
  have pos: "ngt (Compartment_ceiling (comps h' c)) (Fin 0)" if cin: "c \<in> set (compartments (models h 0))" for c
  proof -
    have "\<exists>n p. p \<in> set ZHL_16C_N2_16A_HE_VALUES \<and> comps h c = Compartment_new n p BuhlmannConfig_default"
      using assms(2) cin by (simp add: atRest_def list_all_iff)
    then obtain n p where np: "p \<in> set ZHL_16C_N2_16A_HE_VALUES"
      "comps h c = Compartment_new n p BuhlmannConfig_default" by blast
    have "comps h' c = Compartment_recalculate (Compartment_new n p BuhlmannConfig_default) ?r (Fin 100) (Fin 1013)"
      using h'(2) cin np(2) by simp
    then show ?thesis using np(1) deep_table_default by (simp add: list_all_iff)
  qed
  obtain lc where lc: "lc \<in> set (compartments (models h 0))"
    "ceiling_model 0 h' = Some (Ret (roundCeiling BuhlmannConfig_default (Compartment_ceiling (comps h' lc))) h')"
    using ceiling_ready[OF r'] unfolding e by blast
  have "inDeco 0 h' = Some (Ret True h')"
    using lc pos[OF lc(1)] e g by (simp add: inDeco_def return_def roundCeiling_def Depth_zero_def)
  then show ?thesis using h'(1) ready_own[OF r'] by blast
qed

lemma validate_gf3070: "validate gf3070 = None"
  by (simp add: validate_def gf3070_def BuhlmannConfig_default_def ngt_def)

lemma loadedHeap_facts:
  "ready 0 loadedHeap 0" "models loadedHeap 0 = models slopedHeap 0"
  "\<exists>c. ceiling_model 0 loadedHeap = Some (Ret c loadedHeap) \<and> ngt c Depth_zero"
proof -
  note sl = sloped_slopedHeap[unfolded sloped_def]
  note s0 = sl[THEN conjunct1] sl[THEN conjunct2, THEN conjunct1]
    sl[THEN conjunct2, THEN conjunct2, THEN conjunct2]
  have cs: "compartments (models slopedHeap 0) = [2..<18]"
    by (simp add: slopedHeap_def newHeap_model)
  note s = s0(1) cs s0(2) s0(3)[unfolded cs]
  have p1: "pres 0 slopedHeap loadedHeap" "keeps 0 slopedHeap loadedHeap"
    unfolding loadedHeap_def
    by (rule recalculateEach_pres, simp, rule core_keeps, rule recalculateEach_core)
  show r: "ready 0 loadedHeap 0" using ready_step[OF s(1) p1] .
  show m: "models loadedHeap 0 = models slopedHeap 0"
    unfolding loadedHeap_def by (simp only: recalculateEach_models)
  obtain lc where lc: "lc \<in> set [2..<18]"
    "ceiling_model 0 loadedHeap =
       Some (Ret (roundCeiling gf3070 (Compartment_ceiling (comps loadedHeap lc))) loadedHeap)"
    using ceiling_ready[OF r] unfolding m s by blast
  have "comps loadedHeap lc = Compartment_recalculate (comps slopedHeap lc)
          \<lparr>rd_depth = Fin 40, rd_time = PInf, rd_gas = Gas_air\<rparr> (Fin 70) (Fin 1013)"
    unfolding loadedHeap_def by (rule recalculateEach_comps[OF _ lc(1)]) simp
  moreover have "loaded (comps slopedHeap lc)" using s(4) lc(1) by blast
  ultimately have "ngt (Compartment_ceiling (comps loadedHeap lc)) (Fin 0)"
    using loaded_deep by simp
  then show "\<exists>c. ceiling_model 0 loadedHeap = Some (Ret c loadedHeap) \<and> ngt c Depth_zero"
    using lc(2) by (simp add: roundCeiling_def gf3070_def BuhlmannConfig_default_def Depth_zero_def)
qed

lemma oxygen_constructed: "Gas_new (Fin 1) (Fin 0) = Inr oxygen"
  by (simp add: Gas_new_def oxygen_def ngt_def)

lemma ndiv_by_zero: "ndiv x (Fin 0) \<noteq> Fin y"
  by (cases x) auto

lemma adjusted_b_NaN:
  "(\<forall>y. b \<noteq> Fin y) \<Longrightarrow> ndiv b (nadd (nsub f (nmul f b)) b) = NaN"
  by (cases b; cases "nsub f (nmul f b)") auto

lemma oxygen_table:
  "list_all (\<lambda>p. \<forall>n.
      heIp (Compartment_recalculate (Compartment_new n p BuhlmannConfig_default)
             \<lparr>rd_depth = Fin 0, rd_time = PInf, rd_gas = oxygen\<rparr> (Fin 100) (Fin 1013)) = Fin 0
    \<and> n2Ip (Compartment_recalculate (Compartment_new n p BuhlmannConfig_default)
             \<lparr>rd_depth = Fin 0, rd_time = PInf, rd_gas = oxygen\<rparr> (Fin 100) (Fin 1013)) = Fin 0
    \<and> minTolerableAmbPressure (Compartment_recalculate (Compartment_new n p BuhlmannConfig_default)
             \<lparr>rd_depth = Fin 0, rd_time = PInf, rd_gas = oxygen\<rparr> (Fin 100) (Fin 1013)) = NaN
    \<and> Compartment_ceiling (Compartment_recalculate (Compartment_new n p BuhlmannConfig_default)
             \<lparr>rd_depth = Fin 0, rd_time = PInf, rd_gas = oxygen\<rparr> (Fin 100) (Fin 1013)) = NaN)
     ZHL_16C_N2_16A_HE_VALUES"
  by (simp add: ZHL_16C_N2_16A_HE_VALUES_def zhl_def Compartment_recalculate_def Compartment_new_def
      getAirInspiredPartialPressures_def Depth_zero_def
      Compartment_ceiling_def BuhlmannConfig_default_def
      minTolerableAmbPressureCalc_def mValue_def weightedZhlParams_def weightedParam_def
      maxGfAdjustedZhlParams_def Let_def compartmentInertPressure_def
      compartmentPressureDeltaHaldane_def inspiredPartialPressures_def gasPressuresCompound_def
      ALVEOLI_WATER_VAPOR_PRESSURE_def asMinutes_def oxygen_def)

lemma atRest_oxygen:
  assumes "ready 0 h 0" "atRest h 0" "distinct (compartments (models h 0))"
  shows "\<exists>h'. record_model 0 (Fin 0) PInf oxygen h = Some (Ret () h') \<and>
           ceiling_model 0 h' = Some (Ret NaN h') \<and>
           (\<forall>c\<in>set (compartments (models h 0)).
              heIp (comps h' c) = Fin 0 \<and> n2Ip (comps h' c) = Fin 0 \<and>
              minTolerableAmbPressure (comps h' c) = NaN)"
proof -
  have cf: "configuration (models h 0) = BuhlmannConfig_default" using assms(2) by (simp add: atRest_def)
  have g: "gfHigh BuhlmannConfig_default = Fin 100" "gfLow BuhlmannConfig_default = Fin 100"
    "surfacePressureValue BuhlmannConfig_default = Fin 1013"
    "\<not> roundCeilingValue BuhlmannConfig_default"
    by (simp_all add: BuhlmannConfig_default_def)
  let ?r = "\<lparr>rd_depth = Fin 0, rd_time = PInf, rd_gas = oxygen\<rparr>"
  obtain h' where h': "record_model 0 (Fin 0) PInf oxygen h = Some (Ret () h')"
    "\<forall>c\<in>set (compartments (models h 0)).
        comps h' c = Compartment_recalculate (comps h c) ?r (Fin 100) (Fin 1013)"
    using record_flat[OF assms(1,3), where d = "Fin 0" and t = PInf and g = oxygen]
    unfolding cf g by (auto simp: Depth_zero_def ngt_def)
  have k: "pres 0 h h' \<and> keeps 0 h h'" using record_model_step[OF ready_own[OF assms(1)] h'(1)] by simp
  have r': "ready 0 h' 0" using ready_step[OF assms(1)] k by blast
  have e: "configuration (models h' 0) = BuhlmannConfig_default"
    "compartments (models h' 0) = compartments (models h 0)"
    using k cf by (simp_all add: keeps_def)
  have each: "heIp (comps h' c) = Fin 0 \<and> n2Ip (comps h' c) = Fin 0 \<and>
              minTolerableAmbPressure (comps h' c) = NaN \<and> Compartment_ceiling (comps h' c) = NaN"
    if cin: "c \<in> set (compartments (models h 0))" for c
  proof -
    have "\<exists>n p. p \<in> set ZHL_16C_N2_16A_HE_VALUES \<and> comps h c = Compartment_new n p BuhlmannConfig_default"
      using assms(2) cin by (simp add: atRest_def list_all_iff)
    then obtain n p where np: "p \<in> set ZHL_16C_N2_16A_HE_VALUES"
      "comps h c = Compartment_new n p BuhlmannConfig_default" by blast
    have "comps h' c = Compartment_recalculate (Compartment_new n p BuhlmannConfig_default) ?r (Fin 100) (Fin 1013)"
      using h'(2) cin np(2) by simp
    then show ?thesis using np(1) oxygen_table by (simp add: list_all_iff)
  qed
  obtain lc where lc: "lc \<in> set (compartments (models h 0))"
    "ceiling_model 0 h' = Some (Ret (roundCeiling BuhlmannConfig_default (Compartment_ceiling (comps h' lc))) h')"
    using ceiling_ready[OF r'] unfolding e by blast
  have "ceiling_model 0 h' = Some (Ret NaN h')"
    using lc each[OF lc(1)] g by (simp add: roundCeiling_def)
  then show ?thesis using h'(1) each by blast
qed




lemma recordTravel_with_no_step:
  assumes "\<not> nlt target Depth_zero" "\<not> ngt target (Fin 200)" "\<not> nlt (Fin 0) t"
  shows "recordTravel_with cl b target t g h =
           Some (Ret () (set_state b (\<lambda>s. s\<lparr>depth := target\<rparr>) (set_state b (\<lambda>s. s\<lparr>gas := g\<rparr>) h)))"
  using validateDepth_ok[OF assms(1,2)] assms(3)
  by (simp add: recordTravel_with_def Let_def asSeconds_def travelLoop_exit return_def)


lemma Compartment_recalculate_NaN:
  "minTolerableAmbPressure
     (Compartment_recalculate c \<lparr>rd_depth = NaN, rd_time = t, rd_gas = g\<rparr> mg sp) = NaN"
  by (simp add: Compartment_recalculate_def compartmentInertPressure_def
      compartmentPressureDeltaHaldane_def inspiredPartialPressures_def gasPressuresCompound_def
      minTolerableAmbPressureCalc_def maxGfAdjustedZhlParams_def weightedZhlParams_def
      weightedParam_def Let_def split: prod.splits)

lemma recalculateOxTox_models: "models (recalculateOxTox a r h) = models h"
  by (simp add: recalculateOxTox_def Let_def)

lemma recalculateOxTox_comps: "comps (recalculateOxTox a r h) = comps h"
  by (simp add: recalculateOxTox_def Let_def)

lemma adrift_ceilingSim:
  assumes "adrift h s"
  shows "ceilingSim s h = Some (Ret NaN h)"
proof -
  obtain lc where lc: "leadingComp s h = Some lc"
    using leadingComp_total[of h s] assms by (auto simp: adrift_def)
  have "minTolerableAmbPressure (comps h lc) = NaN"
    using leadingComp_mem[OF lc] assms by (simp add: adrift_def)
  then have "Compartment_ceiling (comps h lc) = NaN"
    by (simp add: Compartment_ceiling_def Let_def)
  then show ?thesis using lc
    by (simp add: ceilingSim_def actualCeiling_def return_def roundCeiling_def)
qed

lemma adrift_travel:
  assumes "adrift h s"
  shows "recordTravelWithRate_with ceilingSim s NaN rate g h =
           Some (Ret () (set_state s (\<lambda>st. st\<lparr>depth := NaN\<rparr>) (set_state s (\<lambda>st. st\<lparr>gas := g\<rparr>) h)))"
proof -
  have t: "Time_fromMinutes (ndiv (nabs (nsub NaN (depth (state (models h s))))) rate) = NaN"
    by (simp add: Time_fromMinutes_def)
  show ?thesis
    unfolding recordTravelWithRate_with_def Let_def t
    by (rule recordTravel_with_no_step) (simp_all add: Depth_zero_def ngt_def)
qed

lemma adrift_kept:
  assumes "adrift h s"
  shows "adrift (set_state s (\<lambda>st. st\<lparr>depth := NaN\<rparr>) (set_state s (\<lambda>st. st\<lparr>gas := g\<rparr>) h)) s"
  using assms by (simp add: adrift_def set_state_def)

lemma adrift_loop:
  "adrift h s \<Longrightarrow> i \<le> 50 \<Longrightarrow> \<exists>h'. adaptiveLoop cfg s g i NaN h = Some (Ret (NaN, 51) h')"
proof (induction "50 - i" arbitrary: i h)
  case 0
  then have i: "i = 50" by simp
  let ?h1 = "set_state s (\<lambda>st. st\<lparr>depth := NaN\<rparr>) (set_state s (\<lambda>st. st\<lparr>gas := g\<rparr>) h)"
  note t = adrift_travel[OF 0(2), where rate = "decoAscentRateValue cfg" and g = g]
    adrift_kept[OF 0(2), where g = g]
  have d: "depth (state (models h s)) = NaN" using 0(2) by (simp add: adrift_def)
  show ?case
    by (subst adaptiveLoop.simps) (simp add: d Let_def t(1) adrift_ceilingSim[OF t(2)] i return_def)
next
  case (Suc k)
  then have i: "i < 50" by simp
  let ?h1 = "set_state s (\<lambda>st. st\<lparr>depth := NaN\<rparr>) (set_state s (\<lambda>st. st\<lparr>gas := g\<rparr>) h)"
  note t = adrift_travel[OF Suc.prems(1), where rate = "decoAscentRateValue cfg" and g = g]
    adrift_kept[OF Suc.prems(1), where g = g]
  have d: "depth (state (models h s)) = NaN" using Suc.prems(1) by (simp add: adrift_def)
  have k: "k = 50 - (i + 1)" using Suc.hyps(2) by simp
  obtain h' where l: "adaptiveLoop cfg s g (i + 1) NaN ?h1 = Some (Ret (NaN, 51) h')"
    using Suc.hyps(1)[OF k t(2)] i by auto
  show ?case
    by (subst adaptiveLoop.simps) (use i l in \<open>simp add: d Let_def t(1) adrift_ceilingSim[OF t(2)]\<close>)
qed

lemma record_adrift:
  "\<exists>h. record_model 0 NaN (Fin 0) Gas_air adaptiveHeap = Some (Ret () h) \<and> own 0 h 0 \<and>
       depth (state (models h 0)) = NaN \<and> compartments (models h 0) = [2..<18] \<and>
       configuration (models h 0) = BuhlmannConfig_default\<lparr>ceilingTypeValue := Adaptive\<rparr> \<and>
       \<not> sim (models h 0) \<and>
       (\<forall>c\<in>set [2..<18]. minTolerableAmbPressure (comps h c) = NaN)"
proof -
  let ?cfg = "BuhlmannConfig_default\<lparr>ceilingTypeValue := Adaptive\<rparr>"
  let ?h3 = "set_state 0 (\<lambda>s. s\<lparr>time := nadd (time s) (Fin 0)\<rparr>)
              (set_state 0 (\<lambda>s. s\<lparr>gas := Gas_air\<rparr>) (set_state 0 (\<lambda>s. s\<lparr>depth := NaN\<rparr>) adaptiveHeap))"
  let ?r = "\<lparr>rd_depth = NaN, rd_time = Fin 0, rd_gas = Gas_air\<rparr>"
  let ?h4 = "recalculateEach [2..<18] ?r (Fin 100) (Fin 1013) ?h3"
  have m: "models adaptiveHeap 0 =
     \<lparr>configuration = ?cfg, compartments = [2 ..< 18], state = initialState, sim = False\<rparr>"
    unfolding adaptiveHeap_def by (rule newHeap_model)
  have m3: "configuration (models ?h3 0) = ?cfg" "compartments (models ?h3 0) = [2..<18]"
    "\<not> sim (models ?h3 0)" "depth (state (models ?h3 0)) = NaN"
    by (simp_all add: set_state_def m)
  have rc: "recalculateCompartments_with ceiling_model 0 ?r ?h3 = Some (Ret () ?h4)"
    unfolding recalculateCompartments_with_def m3 Let_def
    by (simp add: BuhlmannConfig_default_def return_def)
  have m4: "models ?h4 = models ?h3" by (simp only: recalculateEach_models)
  define h5 where "h5 = recalculateOxTox 0 ?r ?h4"
  have r: "record_model 0 NaN (Fin 0) Gas_air adaptiveHeap = Some (Ret () h5)"
    unfolding record_model_def record_with_def recalculate_with_def Let_def h5_def
    by (simp only: validateDepth_def Depth_zero_def nlt.simps ngt_def if_False andThen_simps
        return_def rc m4 m3 simp_thms if_True)
  have o: "own 0 adaptiveHeap 0" unfolding adaptiveHeap_def by (rule own_newHeap)
  have k: "pres 0 adaptiveHeap h5 \<and> keeps 0 adaptiveHeap h5"
    using record_model_step[OF o r] by simp
  have o': "own 0 h5 0" using own_step o k by blast
  have st: "models h5 = models ?h3"
    unfolding h5_def by (simp only: recalculateOxTox_models m4)
  have each: "minTolerableAmbPressure (comps h5 c) = NaN"
    if "c \<in> set [2..<18]" for c
  proof -
    have "comps ?h4 c = Compartment_recalculate (comps ?h3 c) ?r (Fin 100) (Fin 1013)"
      by (rule recalculateEach_comps[OF _ that]) simp
    moreover have "comps h5 = comps ?h4"
      unfolding h5_def by (rule recalculateOxTox_comps)
    ultimately show ?thesis by (simp only: Compartment_recalculate_NaN)
  qed
  have "record_model 0 NaN (Fin 0) Gas_air adaptiveHeap = Some (Ret () h5) \<and> own 0 h5 0 \<and>
       depth (state (models h5 0)) = NaN \<and> compartments (models h5 0) = [2..<18] \<and>
       configuration (models h5 0) = BuhlmannConfig_default\<lparr>ceilingTypeValue := Adaptive\<rparr> \<and>
       \<not> sim (models h5 0) \<and>
       (\<forall>c\<in>set [2..<18]. minTolerableAmbPressure (comps h5 c) = NaN)"
    unfolding st using r o' each m3 by blast
  then show ?thesis by (rule exI)
qed

lemma adaptiveLoop_count:
  "adaptiveLoop cfg s simGas it c h = Some (Ret r h') \<Longrightarrow> it \<le> 50 \<Longrightarrow>
     it \<le> snd r \<and> snd r \<le> 51"
proof (induction cfg s simGas it c h rule: adaptiveLoop.induct)
  case (1 cfg s simGas it c h)
  let ?simDepth = "depth (state (models h s))"
  show ?case
  proof (cases "nle ?simDepth (Fin 0) \<or> nle ?simDepth c")
    case True
    then show ?thesis using "1.prems"
      by (subst (asm) adaptiveLoop.simps) (auto simp: Let_def)
  next
    case False
    from "1.prems"(1) False have
      "andThen (recordTravelWithRate_with ceilingSim s c (decoAscentRateValue cfg) simGas h) (\<lambda>_ h1.
             andThen (ceilingSim s h1) (\<lambda>c h2.
               if it + 1 > 50 then return (c, it + 1) h2
               else adaptiveLoop cfg s simGas (it + 1) c h2)) = Some (Ret r h')"
      by (subst (asm) adaptiveLoop.simps) (simp add: Let_def)
    then show ?thesis
    proof (cases rule: andThenE)
      case (thrown e h1)
      then show ?thesis by simp
    next
      case (returned x h1)
      note rt = returned
      from rt(2) show ?thesis
      proof (cases rule: andThenE)
        case (thrown e h2)
        then show ?thesis by simp
      next
        case (returned c2 h2)
        show ?thesis
        proof (cases "it + 1 > 50")
          case True
          then show ?thesis using returned(2) "1.prems"(2) by auto
        next
          case False2: False
          then have l: "adaptiveLoop cfg s simGas (it + 1) c2 h2 = Some (Ret r h')"
            using returned(2) by simp
          have "it + 1 \<le> snd r \<and> snd r \<le> 51"
            using "1.IH"[OF refl False rt(1) returned(1) False2 l] False2 by simp
          then show ?thesis by simp
        qed
      qed
    qed
  qed
qed

lemma blindD: "blind q \<Longrightarrow> q a (forget h) = map_option forget_out (q a h)"
  by (simp add: blind_def)

lemma forget_config_fields [simp]:
  "gfLow (forget_config cfg) = gfLow cfg"
  "gfHigh (forget_config cfg) = gfHigh cfg"
  "surfacePressureValue (forget_config cfg) = surfacePressureValue cfg"
  "decoAscentRateValue (forget_config cfg) = decoAscentRateValue cfg"
  "ceilingTypeValue (forget_config cfg) = ceilingTypeValue cfg"
  "roundCeilingValue (forget_config cfg) = roundCeilingValue cfg"
  by (simp_all add: forget_config_def)

lemma forget_config_idem [simp]: "forget_config (forget_config cfg) = forget_config cfg"
  by (simp add: forget_config_def)

lemma forget_comp_fields [simp]:
  "no (forget_comp c) = no c"
  "minTolerableAmbPressure (forget_comp c) = minTolerableAmbPressure c"
  "heIp (forget_comp c) = heIp c"
  "n2Ip (forget_comp c) = n2Ip c"
  "totalIp (forget_comp c) = totalIp c"
  "mValueRaw (forget_comp c) = mValueRaw c"
  "mValueCalc (forget_comp c) = mValueCalc c"
  "params (forget_comp c) = params c"
  "modelConfig (forget_comp c) = forget_config (modelConfig c)"
  by (simp_all add: forget_comp_def)

lemma forget_fields [simp]:
  "configuration (models (forget h) a) = forget_config (configuration (models h a))"
  "compartments (models (forget h) a) = compartments (models h a)"
  "state (models (forget h) a) = state (models h a)"
  "sim (models (forget h) a) = sim (models h a)"
  "comps (forget h) c = forget_comp (comps h c)"
  "oxs (forget h) = oxs h"
  "nxt (forget h) = nxt h"
  by (simp_all add: forget_def)

lemma forget_set_state [simp]: "set_state a f (forget h) = forget (set_state a f h)"
  by (auto simp: set_state_def forget_def fun_eq_iff)

lemma forget_set_comp [simp]: "set_comp c (forget_comp v) (forget h) = forget (set_comp c v h)"
  by (auto simp: set_comp_def forget_def fun_eq_iff)

lemma forget_return [simp]: "return x (forget h) = map_option forget_out (return x h)"
  by (simp add: return_def)

lemma forget_throw [simp]: "throw e (forget h) = map_option forget_out (throw e h)"
  by (simp add: throw_def)

lemma andThen_forget:
  assumes "m' = map_option forget_out m"
    and "\<And>x h. m = Some (Ret x h) \<Longrightarrow> k' x (forget h) = map_option forget_out (k x h)"
  shows "andThen m' k' = map_option forget_out (andThen m k)"
  using assms unfolding andThen_def by (auto split: option.splits outcome.splits)

lemma forget_validateDepth [simp]:
  "validateDepth d (forget h) = map_option forget_out (validateDepth d h)"
  by (simp add: validateDepth_def)

lemma forget_weighted [simp]:
  "weightedZhlParams (forget_comp c) = weightedZhlParams c"
  by (simp add: weightedZhlParams_def fun_eq_iff)

lemma forget_mValue [simp]: "mValue (forget_comp c) = mValue c"
  by (simp add: mValue_def fun_eq_iff)

lemma forget_minTol [simp]: "minTolerableAmbPressureCalc (forget_comp c) = minTolerableAmbPressureCalc c"
  by (simp add: minTolerableAmbPressureCalc_def fun_eq_iff)

lemma forget_Compartment_recalculate [simp]:
  "Compartment_recalculate (forget_comp c) r g sp = forget_comp (Compartment_recalculate c r g sp)"
  by (simp add: Compartment_recalculate_def compartmentInertPressure_def
      compartmentPressureDeltaHaldane_def Let_def forget_comp_def mValue_def
      minTolerableAmbPressureCalc_def weightedZhlParams_def split: prod.splits)

lemma forget_Compartment_ceiling [simp]:
  "Compartment_ceiling (forget_comp c) = Compartment_ceiling c"
  by (simp add: Compartment_ceiling_def)

lemma forget_leadingLoop [simp]: "leadingLoop (forget h) l cs = leadingLoop h l cs"
  by (induction cs arbitrary: l) simp_all

lemma forget_leadingComp [simp]: "leadingComp a (forget h) = leadingComp a h"
  by (simp add: leadingComp_def split: list.splits)

lemma forget_recalculateEach [simp]:
  "recalculateEach cs r g sp (forget h) = forget (recalculateEach cs r g sp h)"
  by (induction cs arbitrary: h) simp_all

lemma forget_gfLowDepthLoop [simp]: "gfLowDepthLoop (forget h) sp gl m cs = gfLowDepthLoop h sp gl m cs"
  by (induction cs arbitrary: m) (simp_all add: Let_def)

lemma forget_gfSlopePoint [simp]: "gfSlopePoint (forget_config cfg) = gfSlopePoint cfg"
  by (simp add: gfSlopePoint_def fun_eq_iff)

lemma forget_calcMaxSlopedGF_with:
  assumes "blind cl"
  shows "calcMaxSlopedGF_with cl a d (forget h) = map_option forget_out (calcMaxSlopedGF_with cl a d h)"
  unfolding calcMaxSlopedGF_with_def
  by (rule andThen_forget[OF blindD[OF assms]]) (simp add: Let_def split: option.splits)

lemma forget_recalculateCompartments_with:
  assumes "blind cl"
  shows "recalculateCompartments_with cl a r (forget h) =
           map_option forget_out (recalculateCompartments_with cl a r h)"
proof (cases "neq (gfHigh (configuration (models h a))) (gfLow (configuration (models h a)))")
  case True
  then show ?thesis by (simp add: recalculateCompartments_with_def Let_def)
next
  case False
  then show ?thesis
    unfolding recalculateCompartments_with_def Let_def
    apply (simp del: map_option_eq_Some)
    apply (rule andThen_forget)
     apply (rule forget_calcMaxSlopedGF_with[OF assms])
    apply (simp split: option.splits)
    done
qed

lemma forget_recalculateOxTox [simp]:
  "recalculateOxTox a r (forget h) = forget (recalculateOxTox a r h)"
  by (simp add: recalculateOxTox_def Let_def forget_def)

lemma forget_recalculate_with:
  assumes "blind cl"
  shows "recalculate_with cl a r (forget h) = map_option forget_out (recalculate_with cl a r h)"
  unfolding recalculate_with_def
  by (rule andThen_forget[OF forget_recalculateCompartments_with[OF assms]]) simp

lemma forget_record_with:
  assumes "blind cl"
  shows "record_with cl a d t g (forget h) = map_option forget_out (record_with cl a d t g h)"
  unfolding record_with_def
  by (rule andThen_forget[OF forget_validateDepth])
     (simp add: Let_def forget_recalculate_with[OF assms])

lemma forget_out_Ret:
  "map_option forget_out m = Some (Ret x k) \<Longrightarrow> \<exists>h. m = Some (Ret x h) \<and> k = forget h"
  by (cases m; simp) (metis forget_out.elims outcome.distinct(1) outcome.inject(1))

lemma forget_out_Throw:
  "map_option forget_out m = Some (Throw e k) \<Longrightarrow> \<exists>h. m = Some (Throw e h) \<and> k = forget h"
  by (cases m; simp) (metis forget_out.elims outcome.distinct(1) outcome.inject(2))

lemma forget_travelLoop_fwd:
  assumes "travelLoop cl b secs distRate g i cd h = Some out"
  shows "blind cl \<longrightarrow> travelLoop cl b secs distRate g i cd (forget h) = Some (forget_out out)"
proof (rule travelLoop.raw_induct[where P = "\<lambda>cl b secs distRate g i cd h out.
         blind cl \<longrightarrow> travelLoop cl b secs distRate g i cd (forget h) = Some (forget_out out)",
         OF _ assms])
  fix travelLoop' cl b secs distRate g i cd h out
  assume IH: "\<And>cl b secs distRate g i cd h out. travelLoop' cl b secs distRate g i cd h = Some out \<Longrightarrow>
           blind cl \<longrightarrow> travelLoop cl b secs distRate g i cd (forget h) = Some (forget_out out)"
    and body: "(if nlt (Fin (real i)) secs
        then let h1 = set_state b (\<lambda>s. s\<lparr>time := nadd (time s) (Time_fromSeconds (Fin 1))\<rparr>) h;
                 currentDepth1 = nadd cd distRate;
                 r = \<lparr>rd_depth = currentDepth1, rd_time = Time_fromSeconds (Fin 1), rd_gas = g\<rparr>
             in andThen (recalculate_with cl b r h1)
                  (\<lambda>_ h2. travelLoop' cl b secs distRate g (i + 1) currentDepth1 h2)
        else return () h) = Some out"
  show "blind cl \<longrightarrow> travelLoop cl b secs distRate g i cd (forget h) = Some (forget_out out)"
  proof
    assume bl: "blind cl"
    show "travelLoop cl b secs distRate g i cd (forget h) = Some (forget_out out)"
    proof (cases "nlt (Fin (real i)) secs")
      case False
      then show ?thesis using body by (subst travelLoop.simps) (auto simp: return_def)
    next
      case True
      let ?h1 = "set_state b (\<lambda>s. s\<lparr>time := nadd (time s) (Time_fromSeconds (Fin 1))\<rparr>) h"
      let ?r = "\<lparr>rd_depth = nadd cd distRate, rd_time = Time_fromSeconds (Fin 1), rd_gas = g\<rparr>"
      from body True have
        "andThen (recalculate_with cl b ?r ?h1)
           (\<lambda>_ h2. travelLoop' cl b secs distRate g (i + 1) (nadd cd distRate) h2) = Some out"
        by (simp add: Let_def)
      then show ?thesis
      proof (cases rule: andThenE)
        case (thrown e h1)
        then show ?thesis using True
          by (subst travelLoop.simps)
             (simp add: Let_def forget_recalculate_with[OF bl] andThen_def)
      next
        case (returned x h2)
        have "travelLoop cl b secs distRate g (i + 1) (nadd cd distRate) (forget h2) = Some (forget_out out)"
          using IH[OF returned(2)] bl by simp
        then show ?thesis using True returned(1)
          by (subst travelLoop.simps)
             (simp add: Let_def forget_recalculate_with[OF bl] andThen_def)
      qed
    qed
  qed
qed

lemma forget_travelLoop_bwd:
  assumes "travelLoop cl b secs distRate g i cd k = Some out'"
  shows "blind cl \<longrightarrow> (\<forall>h. k = forget h \<longrightarrow>
           (\<exists>out. travelLoop cl b secs distRate g i cd h = Some out \<and> out' = forget_out out))"
proof (rule travelLoop.raw_induct[where P = "\<lambda>cl b secs distRate g i cd k out'.
         blind cl \<longrightarrow> (\<forall>h. k = forget h \<longrightarrow>
           (\<exists>out. travelLoop cl b secs distRate g i cd h = Some out \<and> out' = forget_out out))",
         OF _ assms])
  fix travelLoop' cl b secs distRate g i cd k out'
  assume IH: "\<And>cl b secs distRate g i cd k out'. travelLoop' cl b secs distRate g i cd k = Some out' \<Longrightarrow>
           blind cl \<longrightarrow> (\<forall>h. k = forget h \<longrightarrow>
           (\<exists>out. travelLoop cl b secs distRate g i cd h = Some out \<and> out' = forget_out out))"
    and body: "(if nlt (Fin (real i)) secs
        then let h1 = set_state b (\<lambda>s. s\<lparr>time := nadd (time s) (Time_fromSeconds (Fin 1))\<rparr>) k;
                 currentDepth1 = nadd cd distRate;
                 r = \<lparr>rd_depth = currentDepth1, rd_time = Time_fromSeconds (Fin 1), rd_gas = g\<rparr>
             in andThen (recalculate_with cl b r h1)
                  (\<lambda>_ h2. travelLoop' cl b secs distRate g (i + 1) currentDepth1 h2)
        else return () k) = Some out'"
  show "blind cl \<longrightarrow> (\<forall>h. k = forget h \<longrightarrow>
           (\<exists>out. travelLoop cl b secs distRate g i cd h = Some out \<and> out' = forget_out out))"
  proof (intro impI allI)
    fix h assume bl: "blind cl" and k: "k = forget h"
    show "\<exists>out. travelLoop cl b secs distRate g i cd h = Some out \<and> out' = forget_out out"
    proof (cases "nlt (Fin (real i)) secs")
      case False
      then show ?thesis using body k by (subst travelLoop.simps) (auto simp: return_def)
    next
      case True
      let ?h1 = "set_state b (\<lambda>s. s\<lparr>time := nadd (time s) (Time_fromSeconds (Fin 1))\<rparr>) h"
      let ?r = "\<lparr>rd_depth = nadd cd distRate, rd_time = Time_fromSeconds (Fin 1), rd_gas = g\<rparr>"
      from body True k have
        "andThen (map_option forget_out (recalculate_with cl b ?r ?h1))
           (\<lambda>_ h2. travelLoop' cl b secs distRate g (i + 1) (nadd cd distRate) h2) = Some out'"
        by (simp add: Let_def forget_recalculate_with[OF bl])
      then show ?thesis
      proof (cases rule: andThenE)
        case (thrown e k1)
        obtain h1 where "recalculate_with cl b ?r ?h1 = Some (Throw e h1)" "k1 = forget h1"
          using forget_out_Throw[OF thrown(1)] by blast
        then show ?thesis using True thrown(2)
          by (subst travelLoop.simps) (simp add: Let_def andThen_def)
      next
        case (returned x k1)
        obtain h2 where h2: "recalculate_with cl b ?r ?h1 = Some (Ret x h2)" "k1 = forget h2"
          using forget_out_Ret[OF returned(1)] by blast
        obtain out where "travelLoop cl b secs distRate g (i + 1) (nadd cd distRate) h2 = Some out"
          "out' = forget_out out"
          using IH[OF returned(2)] bl h2(2) by blast
        then show ?thesis using True h2(1)
          by (subst travelLoop.simps) (simp add: Let_def andThen_def)
      qed
    qed
  qed
qed

lemma forget_travelLoop:
  assumes "blind cl"
  shows "travelLoop cl b secs distRate g i cd (forget h) =
           map_option forget_out (travelLoop cl b secs distRate g i cd h)"
proof (cases "travelLoop cl b secs distRate g i cd h")
  case (Some out)
  then show ?thesis using forget_travelLoop_fwd[OF Some] assms by simp
next
  case None
  show ?thesis
  proof (cases "travelLoop cl b secs distRate g i cd (forget h)")
    case None2: None
    then show ?thesis using None by simp
  next
    case (Some out')
    then show ?thesis using forget_travelLoop_bwd[OF Some] assms None by auto
  qed
qed

lemma forget_recordTravel_with:
  assumes "blind cl"
  shows "recordTravel_with cl a d t g (forget h) = map_option forget_out (recordTravel_with cl a d t g h)"
  unfolding recordTravel_with_def
  apply (rule andThen_forget[OF forget_validateDepth])
  apply (simp add: Let_def del: forget_return)
  apply (rule andThen_forget[OF forget_travelLoop[OF assms]])
  apply simp
  done

lemma forget_recordTravelWithRate_with:
  assumes "blind cl"
  shows "recordTravelWithRate_with cl a d rate g (forget h) =
           map_option forget_out (recordTravelWithRate_with cl a d rate g h)"
  by (simp add: recordTravelWithRate_with_def Let_def forget_recordTravel_with[OF assms])

lemma forget_validate [simp]: "validate (forget_config cfg) = validate cfg"
  by (simp add: validate_def)

lemma forget_Compartment_new [simp]:
  "Compartment_new n ps (forget_config cfg) = forget_comp (Compartment_new n ps cfg)"
  by (simp add: Compartment_new_def Let_def forget_comp_def mValue_def
      minTolerableAmbPressureCalc_def weightedZhlParams_def split: prod.splits)

lemma forget_Compartment_clone [simp]:
  "Compartment_clone (forget_comp c) = forget_comp (Compartment_clone c)"
  by (simp add: Compartment_clone_def)

lemma forget_createCompartments:
  "createCompartments i ps (forget_config cfg) (forget h) =
     (fst (createCompartments i ps cfg h), forget (snd (createCompartments i ps cfg h)))"
proof (induction ps arbitrary: i h)
  case Nil
  then show ?case by simp
next
  case (Cons p ps)
  have "(forget h)\<lparr>comps := (comps (forget h))(nxt h := forget_comp (Compartment_new (i + 1) p cfg)),
                   nxt := Suc (nxt h)\<rparr> =
        forget (h\<lparr>comps := (comps h)(nxt h := Compartment_new (i + 1) p cfg), nxt := Suc (nxt h)\<rparr>)"
    by (auto simp: forget_def fun_eq_iff)
  then show ?case using Cons.IH by (simp add: Let_def)
qed

lemma forget_construct_model:
  "construct_model (forget_config cfg) (forget h) =
     (fst (construct_model cfg h), forget (snd (construct_model cfg h)))"
proof -
  let ?h2 = "h\<lparr>nxt := Suc (nxt h), oxs := (oxs h)(Suc (nxt h) := OxTox_default), nxt := Suc (Suc (nxt h))\<rparr>"
  have e: "(forget h)\<lparr>nxt := Suc (nxt h), oxs := (oxs h)(Suc (nxt h) := OxTox_default), nxt := Suc (Suc (nxt h))\<rparr>
           = forget ?h2"
    by (auto simp: forget_def fun_eq_iff)
  have m: "k\<lparr>models := (models k)(a := m)\<rparr> = forget (k'\<lparr>models := (models k')(a := m')\<rparr>)"
    if "k = forget k'" "m = m'\<lparr>configuration := forget_config (configuration m')\<rparr>" for k k' a m m'
    using that by (auto simp: forget_def fun_eq_iff)
  show ?thesis
    unfolding construct_model_def Let_def
    by (simp add: e forget_createCompartments m)
qed

lemma forget_BuhlmannModel_new:
  "BuhlmannModel_new (forget_config cfg) (forget h) = map_option forget_out (BuhlmannModel_new cfg h)"
  by (simp add: BuhlmannModel_new_def forget_construct_model split: option.splits)

lemma forget_cloneEach:
  "cloneEach cs (forget h) = (fst (cloneEach cs h), forget (snd (cloneEach cs h)))"
proof (induction cs arbitrary: h)
  case Nil
  then show ?case by simp
next
  case (Cons c cs)
  have "(forget h)\<lparr>comps := (comps (forget h))(nxt h := forget_comp (Compartment_clone (comps h c))),
                   nxt := Suc (nxt h)\<rparr> =
        forget (h\<lparr>comps := (comps h)(nxt h := Compartment_clone (comps h c)), nxt := Suc (nxt h)\<rparr>)"
    by (auto simp: forget_def fun_eq_iff)
  then show ?case using Cons.IH by (simp add: Let_def)
qed

lemma forget_models_upd:
  "(forget h)\<lparr>models := (models (forget h))(a := f (models (forget h) a))\<rparr> =
     forget (h\<lparr>models := (models h)(a := f' (models h a))\<rparr>)"
  if "f (models (forget h) a) = (f' (models h a))\<lparr>configuration := forget_config (configuration (f' (models h a)))\<rparr>"
  using that by (auto simp: forget_def fun_eq_iff)

lemma forget_copyInto [simp]: "copyInto a cloned (forget h) = forget (copyInto a cloned h)"
proof -
  define A where "A = (\<lambda>(k::heap) x. k\<lparr>oxs := (oxs k)(nxt k := x), nxt := Suc (nxt k)\<rparr>)"
  define B where "B = (\<lambda>c st (k::heap). k\<lparr>models := (models k)(c := (models k c)\<lparr>state := st\<rparr>)\<rparr>)"
  define C where "C = (\<lambda>c cs (k::heap). k\<lparr>models := (models k)(c := (models k c)\<lparr>compartments := cs\<rparr>)\<rparr>)"
  define D where "D = (\<lambda>c (k::heap). k\<lparr>models := (models k)(c := (models k c)\<lparr>sim := True\<rparr>)\<rparr>)"
  define st where "st = (\<lambda>(k::heap). \<lparr>depth = depth (state (models k a)), time = time (state (models k a)),
      gas = gas (state (models k a)), gfLowDepth = gfLowDepth (state (models k a)), oxTox = nxt k\<rparr>)"
  define x where "x = (\<lambda>(k::heap). OxTox_clone (oxs k (oxTox (state (models k a)))))"
  have alt: "copyInto a cloned k =
      D cloned (C cloned (fst (cloneEach (compartments (models k a)) (B cloned (st k) (A k (x k)))))
                         (snd (cloneEach (compartments (models k a)) (B cloned (st k) (A k (x k))))))" for k
    unfolding copyInto_def Let_def A_def B_def C_def D_def st_def x_def by simp
  have c: "A (forget k) y = forget (A k y)" "B c s (forget k) = forget (B c s k)"
    "C c cs (forget k) = forget (C c cs k)" "D c (forget k) = forget (D c k)" for k y c s cs
    by (auto simp: A_def B_def C_def D_def forget_def fun_eq_iff)
  have e: "st (forget k) = st k" "x (forget k) = x k" for k
    by (simp_all add: st_def x_def)
  show ?thesis
    by (simp only: alt forget_fields c e forget_cloneEach fst_conv snd_conv)
qed

lemma forget_fork: "fork a (forget h) = map_option forget_out (fork a h)"
  unfolding fork_def
  by (simp, rule andThen_forget[OF forget_BuhlmannModel_new]) simp

lemma forget_BuhlmannConfig_clone [simp]:
  "BuhlmannConfig_clone (forget_config cfg) = forget_config (BuhlmannConfig_clone cfg)"
  by (simp add: BuhlmannConfig_clone_def forget_config_def)

lemma forget_clone: "clone a (forget h) = map_option forget_out (clone a h)"
  unfolding clone_def
  by (simp, rule andThen_forget[OF forget_BuhlmannModel_new]) simp

lemma forget_actualCeiling: "actualCeiling a (forget h) = map_option forget_out (actualCeiling a h)"
  by (simp add: actualCeiling_def split: option.splits)

lemma forget_roundCeiling [simp]: "roundCeiling (forget_config cfg) = roundCeiling cfg"
  by (simp add: roundCeiling_def fun_eq_iff)

lemma forget_ceilingSim: "ceilingSim a (forget h) = map_option forget_out (ceilingSim a h)"
  unfolding ceilingSim_def
  by (rule andThen_forget[OF forget_actualCeiling]) simp

lemma blind_ceilingSim: "blind ceilingSim"
  by (simp add: blind_def forget_ceilingSim)

lemma forget_adaptiveLoop:
  "adaptiveLoop (forget_config cfg) s simGas it c (forget h) =
     map_option forget_out (adaptiveLoop cfg s simGas it c h)"
proof (induction cfg s simGas it c h rule: adaptiveLoop.induct)
  case (1 cfg s simGas it c h)
  let ?simDepth = "depth (state (models h s))"
  show ?case
  proof (cases "nle ?simDepth (Fin 0) \<or> nle ?simDepth c")
    case True
    then show ?thesis
      by (subst adaptiveLoop.simps, subst (2) adaptiveLoop.simps) (auto simp: Let_def)
  next
    case False
    have "andThen (recordTravelWithRate_with ceilingSim s c (decoAscentRateValue cfg) simGas (forget h))
            (\<lambda>_ h1. andThen (ceilingSim s h1) (\<lambda>c h2.
               if it + 1 > 50 then return (c, it + 1) h2
               else adaptiveLoop (forget_config cfg) s simGas (it + 1) c h2)) =
          map_option forget_out
            (andThen (recordTravelWithRate_with ceilingSim s c (decoAscentRateValue cfg) simGas h)
              (\<lambda>_ h1. andThen (ceilingSim s h1) (\<lambda>c h2.
                 if it + 1 > 50 then return (c, it + 1) h2
                 else adaptiveLoop cfg s simGas (it + 1) c h2)))"
    proof (rule andThen_forget[OF forget_recordTravelWithRate_with[OF blind_ceilingSim]])
      fix x h1
      assume t: "recordTravelWithRate_with ceilingSim s c (decoAscentRateValue cfg) simGas h = Some (Ret x h1)"
      show "andThen (ceilingSim s (forget h1)) (\<lambda>c h2.
               if it + 1 > 50 then return (c, it + 1) h2
               else adaptiveLoop (forget_config cfg) s simGas (it + 1) c h2) =
            map_option forget_out (andThen (ceilingSim s h1) (\<lambda>c h2.
               if it + 1 > 50 then return (c, it + 1) h2
               else adaptiveLoop cfg s simGas (it + 1) c h2))"
      proof (rule andThen_forget[OF forget_ceilingSim])
        fix c2 h2
        assume c2: "ceilingSim s h1 = Some (Ret c2 h2)"
        show "(if it + 1 > 50 then return (c2, it + 1) (forget h2)
               else adaptiveLoop (forget_config cfg) s simGas (it + 1) c2 (forget h2)) =
              map_option forget_out (if it + 1 > 50 then return (c2, it + 1) h2
               else adaptiveLoop cfg s simGas (it + 1) c2 h2)"
        proof (cases "it + 1 > 50")
          case True
          then show ?thesis by simp
        next
          case False2: False
          then show ?thesis using "1.IH"[OF refl False t c2 False2] by simp
        qed
      qed
    qed
    then show ?thesis using False
      by (subst adaptiveLoop.simps, subst (2) adaptiveLoop.simps) (simp add: Let_def)
  qed
qed

lemma forget_ceiling_model: "ceiling_model a (forget h) = map_option forget_out (ceiling_model a h)"
proof -
  let ?cfg = "configuration (models h a)"
  let ?ct = "if sim (models h a) then Actual else ceilingTypeValue ?cfg"
  have inner: "(case ?ct of
              Actual \<Rightarrow> actualCeiling a (forget h)
            | Adaptive \<Rightarrow>
                andThen (fork a (forget h)) (\<lambda>simModel h1.
                  andThen (ceilingSim simModel h1) (\<lambda>calculatedCeiling h2.
                       andThen (adaptiveLoop (forget_config ?cfg) simModel
                                  (gas (state (models h1 simModel))) 0 calculatedCeiling h2)
                         (\<lambda>r h3. return (fst r) h3)))) =
        map_option forget_out (case ?ct of
              Actual \<Rightarrow> actualCeiling a h
            | Adaptive \<Rightarrow>
                andThen (fork a h) (\<lambda>simModel h1.
                  andThen (ceilingSim simModel h1) (\<lambda>calculatedCeiling h2.
                       andThen (adaptiveLoop ?cfg simModel
                                  (gas (state (models h1 simModel))) 0 calculatedCeiling h2)
                         (\<lambda>r h3. return (fst r) h3))))"
  proof (cases ?ct)
    case Actual
    then show ?thesis by (simp add: forget_actualCeiling)
  next
    case Adaptive
    have "andThen (fork a (forget h)) (\<lambda>simModel h1.
                  andThen (ceilingSim simModel h1) (\<lambda>calculatedCeiling h2.
                       andThen (adaptiveLoop (forget_config ?cfg) simModel
                                  (gas (state (models h1 simModel))) 0 calculatedCeiling h2)
                         (\<lambda>r h3. return (fst r) h3))) =
          map_option forget_out (andThen (fork a h) (\<lambda>simModel h1.
                  andThen (ceilingSim simModel h1) (\<lambda>calculatedCeiling h2.
                       andThen (adaptiveLoop ?cfg simModel
                                  (gas (state (models h1 simModel))) 0 calculatedCeiling h2)
                         (\<lambda>r h3. return (fst r) h3))))"
      apply (rule andThen_forget[OF forget_fork])
      apply (simp only: forget_fields)
      apply (rule andThen_forget[OF forget_ceilingSim])
      apply (rule andThen_forget[OF forget_adaptiveLoop])
      apply simp
      done
    then show ?thesis using Adaptive by simp
  qed
  show ?thesis
    unfolding ceiling_model_def Let_def
    apply (simp only: forget_fields forget_config_fields)
    apply (rule andThen_forget[OF inner])
    apply simp
    done
qed

lemma blind_ceiling_model: "blind ceiling_model"
  by (simp add: blind_def forget_ceiling_model)

lemmas forget_record_model =
  forget_record_with[OF blind_ceiling_model, folded record_model_def]
lemmas forget_recordTravel =
  forget_recordTravel_with[OF blind_ceiling_model, folded recordTravel_def]
lemmas forget_recordTravelWithRate =
  forget_recordTravelWithRate_with[OF blind_ceiling_model, folded recordTravelWithRate_def]

lemma forget_nextSwitchGas [simp]: "nextSwitchGas (forget_config cfg) = nextSwitchGas cfg"
  by (simp add: nextSwitchGas_def fun_eq_iff)

lemma forget_diveState [simp]: "diveState a (forget h) = diveState a h"
  by (simp add: diveState_def)

lemma forget_nextDecoAction:
  "nextDecoAction a s gasMixes (forget h) = map_option forget_out (nextDecoAction a s gasMixes h)"
proof (cases "nle (depth (state (models h s))) (Fin 0)")
  case True
  then show ?thesis by (simp add: nextDecoAction_def Let_def)
next
  case False
  then show ?thesis
    unfolding nextDecoAction_def Let_def
    apply (simp only: forget_fields if_False)
    apply (rule andThen_forget[OF forget_ceiling_model])
    apply (simp split: option.splits)
    done
qed

lemma forget_decoStage:
  "decoStage a s pre act sw ceil stages (forget h) =
     map_option forget_out (decoStage a s pre act sw ceil stages h)"
proof (cases act)
  case Ascent
  show ?thesis
    unfolding decoStage_def Let_def Ascent
    apply (simp only: DecoStageType.case forget_fields forget_config_fields)
    apply (rule andThen_forget[OF forget_recordTravelWithRate])
    apply simp
    done
next
  case DecoStop
  show ?thesis
    unfolding decoStage_def Let_def DecoStop
    apply (simp only: DecoStageType.case forget_fields forget_config_fields)
    apply (rule andThen_forget[OF forget_record_model])
    apply simp
    done
next
  case GasSwitch
  show ?thesis
  proof (cases sw)
    case None
    then show ?thesis by (simp add: decoStage_def Let_def GasSwitch)
  next
    case (Some switchGas)
    let ?rate = "decoAscentRateValue (configuration (models h a))"
    let ?mod = "maxOperatingDepth switchGas (Fin 1.6)"
    have first: "(if ngt (depth pre) ?mod
                        then andThen (recordTravelWithRate s ?mod ?rate (gas pre) (forget h))
                               (\<lambda>_ h1.
                               return
                                    (stages @ [\<lparr>stageType = Ascent, startDepth = depth pre,
                                                endDepth = depth (diveState s h1),
                                                duration = nsub (time (diveState s h1)) (time pre),
                                                stage_gas = gas pre\<rparr>]) h1)
                        else return stages (forget h)) =
                 map_option forget_out (if ngt (depth pre) ?mod
                        then andThen (recordTravelWithRate s ?mod ?rate (gas pre) h)
                               (\<lambda>_ h1.
                               return
                                    (stages @ [\<lparr>stageType = Ascent, startDepth = depth pre,
                                                endDepth = depth (diveState s h1),
                                                duration = nsub (time (diveState s h1)) (time pre),
                                                stage_gas = gas pre\<rparr>]) h1)
                        else return stages h)"
    proof (cases "ngt (depth pre) ?mod")
      case True
      show ?thesis
        apply (simp only: True if_True)
        apply (rule andThen_forget[OF forget_recordTravelWithRate])
        apply simp
        done
    next
      case False
      then show ?thesis by simp
    qed
    show ?thesis
      unfolding decoStage_def Let_def GasSwitch Some
      apply (simp only: DecoStageType.case option.case forget_fields forget_config_fields)
      apply (rule andThen_forget[OF first])
      apply (simp only: forget_diveState)
      apply (rule andThen_forget[OF forget_record_model])
      apply simp
      done
  qed
qed

lemma forget_decoLoop_fwd:
  assumes "decoLoop a s gasMixes stages h = Some out"
  shows "decoLoop a s gasMixes stages (forget h) = Some (forget_out out)"
proof (rule decoLoop.raw_induct[where P = "\<lambda>a s gasMixes stages h out.
         decoLoop a s gasMixes stages (forget h) = Some (forget_out out)", OF _ assms])
  fix decoLoop' a s gasMixes stages h out
  assume IH: "\<And>a s gasMixes stages h out. decoLoop' a s gasMixes stages h = Some out \<Longrightarrow>
           decoLoop a s gasMixes stages (forget h) = Some (forget_out out)"
    and body: "andThen (ceiling_model s h) (\<lambda>ceil h1.
       andThen (nextDecoAction a s gasMixes h1) (\<lambda>r h2.
         case fst r of
           None \<Rightarrow> return stages h2
         | Some decoAction \<Rightarrow>
             andThen (decoStage a s (state (models h s)) decoAction (snd r) ceil
                        stages h2) (\<lambda>stages1 h3.
               decoLoop' a s gasMixes stages1 h3))) = Some out"
  from body show "decoLoop a s gasMixes stages (forget h) = Some (forget_out out)"
  proof (cases rule: andThenE)
    case (thrown e h1)
    then show ?thesis
      by (subst decoLoop.simps) (simp add: forget_ceiling_model andThen_def)
  next
    case (returned ceil h1)
    note c = returned(1)
    from returned(2) show ?thesis
    proof (cases rule: andThenE)
      case (thrown e h2)
      then show ?thesis using c
        by (subst decoLoop.simps) (simp add: forget_ceiling_model forget_nextDecoAction andThen_def)
    next
      case (returned r h2)
      note n = returned(1)
      show ?thesis
      proof (cases "fst r")
        case None
        then show ?thesis using c n returned(2)
          by (subst decoLoop.simps)
             (auto simp: forget_ceiling_model forget_nextDecoAction andThen_def return_def)
      next
        case (Some act)
        with returned(2) have
          "andThen (decoStage a s (state (models h s)) act (snd r) ceil stages h2)
             (\<lambda>stages1 h3. decoLoop' a s gasMixes stages1 h3) = Some out"
          by simp
        then show ?thesis
        proof (cases rule: andThenE)
          case (thrown e h3)
          then show ?thesis using c n Some
            by (subst decoLoop.simps)
               (simp add: forget_ceiling_model forget_nextDecoAction forget_decoStage andThen_def)
        next
          case (returned stages1 h3)
          have "decoLoop a s gasMixes stages1 (forget h3) = Some (forget_out out)"
            using IH[OF returned(2)] .
          then show ?thesis using c n Some returned(1)
            by (subst decoLoop.simps)
               (simp add: forget_ceiling_model forget_nextDecoAction forget_decoStage andThen_def)
        qed
      qed
    qed
  qed
qed

lemma forget_decoLoop_bwd:
  assumes "decoLoop a s gasMixes stages k = Some out'"
  shows "\<forall>h. k = forget h \<longrightarrow>
           (\<exists>out. decoLoop a s gasMixes stages h = Some out \<and> out' = forget_out out)"
proof (rule decoLoop.raw_induct[where P = "\<lambda>a s gasMixes stages k out'.
         \<forall>h. k = forget h \<longrightarrow>
           (\<exists>out. decoLoop a s gasMixes stages h = Some out \<and> out' = forget_out out)", OF _ assms])
  fix decoLoop' a s gasMixes stages k out'
  assume IH: "\<And>a s gasMixes stages k out'. decoLoop' a s gasMixes stages k = Some out' \<Longrightarrow>
           \<forall>h. k = forget h \<longrightarrow>
           (\<exists>out. decoLoop a s gasMixes stages h = Some out \<and> out' = forget_out out)"
    and body: "andThen (ceiling_model s k) (\<lambda>ceil h1.
       andThen (nextDecoAction a s gasMixes h1) (\<lambda>r h2.
         case fst r of
           None \<Rightarrow> return stages h2
         | Some decoAction \<Rightarrow>
             andThen (decoStage a s (state (models k s)) decoAction (snd r) ceil
                        stages h2) (\<lambda>stages1 h3.
               decoLoop' a s gasMixes stages1 h3))) = Some out'"
  show "\<forall>h. k = forget h \<longrightarrow>
           (\<exists>out. decoLoop a s gasMixes stages h = Some out \<and> out' = forget_out out)"
  proof (intro allI impI)
    fix h assume k: "k = forget h"
    from body show "\<exists>out. decoLoop a s gasMixes stages h = Some out \<and> out' = forget_out out"
    proof (cases rule: andThenE)
      case (thrown e k1)
      obtain h1 where "ceiling_model s h = Some (Throw e h1)" "k1 = forget h1"
        using forget_out_Throw[of "ceiling_model s h" e k1] thrown(1) k
        by (auto simp: forget_ceiling_model)
      then show ?thesis using thrown(2)
        by (subst decoLoop.simps) (simp add: andThen_def)
    next
      case (returned ceil k1)
      obtain h1 where c: "ceiling_model s h = Some (Ret ceil h1)" "k1 = forget h1"
        using forget_out_Ret[of "ceiling_model s h" ceil k1] returned(1) k
        by (auto simp: forget_ceiling_model)
      from returned(2) show ?thesis
      proof (cases rule: andThenE)
        case (thrown e k2)
        obtain h2 where "nextDecoAction a s gasMixes h1 = Some (Throw e h2)" "k2 = forget h2"
          using forget_out_Throw[of "nextDecoAction a s gasMixes h1" e k2] thrown(1) c(2)
          by (auto simp: forget_nextDecoAction)
        then show ?thesis using thrown(2) c(1)
          by (subst decoLoop.simps) (simp add: andThen_def)
      next
        case (returned r k2)
        obtain h2 where n: "nextDecoAction a s gasMixes h1 = Some (Ret r h2)" "k2 = forget h2"
          using forget_out_Ret[of "nextDecoAction a s gasMixes h1" r k2] returned(1) c(2)
          by (auto simp: forget_nextDecoAction)
        show ?thesis
        proof (cases "fst r")
          case None
          then show ?thesis using c(1) n returned(2)
            by (subst decoLoop.simps) (auto simp: andThen_def return_def)
        next
          case (Some act)
          with returned(2) have
            "andThen (decoStage a s (state (models k s)) act (snd r) ceil stages k2)
               (\<lambda>stages1 h3. decoLoop' a s gasMixes stages1 h3) = Some out'"
            by simp
          then show ?thesis
          proof (cases rule: andThenE)
            case (thrown e k3)
            obtain h3 where "decoStage a s (state (models h s)) act (snd r) ceil stages h2 = Some (Throw e h3)"
              "k3 = forget h3"
              using forget_out_Throw[of "decoStage a s (state (models h s)) act (snd r) ceil stages h2" e k3]
                thrown(1) n(2) k
              by (auto simp: forget_decoStage)
            then show ?thesis using thrown(2) c(1) n(1) Some
              by (subst decoLoop.simps) (simp add: andThen_def)
          next
            case (returned stages1 k3)
            obtain h3 where d: "decoStage a s (state (models h s)) act (snd r) ceil stages h2 = Some (Ret stages1 h3)"
              "k3 = forget h3"
              using forget_out_Ret[of "decoStage a s (state (models h s)) act (snd r) ceil stages h2" stages1 k3]
                returned(1) n(2) k
              by (auto simp: forget_decoStage)
            obtain out where "decoLoop a s gasMixes stages1 h3 = Some out" "out' = forget_out out"
              using IH[OF returned(2)] d(2) by blast
            then show ?thesis using c(1) n(1) Some d(1)
              by (subst decoLoop.simps) (simp add: andThen_def)
          qed
        qed
      qed
    qed
  qed
qed

lemma forget_decoLoop:
  "decoLoop a s gasMixes stages (forget h) = map_option forget_out (decoLoop a s gasMixes stages h)"
proof (cases "decoLoop a s gasMixes stages h")
  case (Some out)
  then show ?thesis using forget_decoLoop_fwd[OF Some] by simp
next
  case None
  show ?thesis
  proof (cases "decoLoop a s gasMixes stages (forget h)")
    case None2: None
    then show ?thesis using None by simp
  next
    case (Some out')
    then show ?thesis using forget_decoLoop_bwd[OF Some] None by auto
  qed
qed

lemma forget_deco: "deco a gasMixes (forget h) = map_option forget_out (deco a gasMixes h)"
proof -
  have u: "(forget k)\<lparr>models := (models (forget k))(c := (models (forget k) c)\<lparr>sim := True\<rparr>)\<rparr>
         = forget (k\<lparr>models := (models k)(c := (models k c)\<lparr>sim := True\<rparr>)\<rparr>)" for k c
    by (auto simp: forget_def fun_eq_iff)
  have g: "gas (state (models (forget (k\<lparr>models := (models k)(c := (models k c)\<lparr>sim := True\<rparr>)\<rparr>)) c)) =
           gas (state (models (k\<lparr>models := (models k)(c := (models k c)\<lparr>sim := True\<rparr>)\<rparr>) c))" for k c
    by (simp only: forget_fields)
  show ?thesis
    unfolding deco_def
    apply (rule andThen_forget[OF forget_clone])
    apply (simp only: Let_def u g)
    apply (simp del: forget_return map_option_eq_Some)
    apply (intro conjI impI)
    apply (rule andThen_forget[OF forget_decoLoop])
    apply simp
    done
qed

lemma forget_inDeco: "inDeco a (forget h) = map_option forget_out (inDeco a h)"
proof (cases "ceilingTypeValue (configuration (models h a))")
  case Actual
  show ?thesis
    unfolding inDeco_def
    apply (simp only: forget_fields forget_config_fields Actual CeilingType.case)
    apply (rule andThen_forget[OF forget_ceiling_model])
    apply simp
    done
next
  case Adaptive
  show ?thesis
    unfolding inDeco_def Let_def
    apply (simp only: forget_fields forget_config_fields Adaptive CeilingType.case forget_diveState)
    apply (rule andThen_forget[OF forget_deco])
    apply simp
    done
qed

lemma forget_ndlLoop:
  "ndlLoop a s interval i (forget h) = map_option forget_out (ndlLoop a s interval i h)"
proof (induction a s interval i h rule: ndlLoop.induct)
  case (1 a s interval i h)
  show ?case
  proof (cases "i < NDL_CUT_OFF_MINS")
    case False
    then show ?thesis by (subst ndlLoop.simps, subst (2) ndlLoop.simps) simp
  next
    case True
    let ?d = "depth (state (models h a))"
    let ?g = "gas (state (models h a))"
    have "andThen (record_model s ?d interval ?g (forget h)) (\<lambda>_ h1.
             andThen (inDeco s h1) (\<lambda>d h2.
               if d then return (nmul interval (Fin (real i))) h2
               else ndlLoop a s interval (i + 1) h2)) =
          map_option forget_out (andThen (record_model s ?d interval ?g h) (\<lambda>_ h1.
             andThen (inDeco s h1) (\<lambda>d h2.
               if d then return (nmul interval (Fin (real i))) h2
               else ndlLoop a s interval (i + 1) h2)))"
    proof (rule andThen_forget[OF forget_record_model])
      fix x h1
      assume r: "record_model s ?d interval ?g h = Some (Ret x h1)"
      show "andThen (inDeco s (forget h1)) (\<lambda>d h2.
               if d then return (nmul interval (Fin (real i))) h2
               else ndlLoop a s interval (i + 1) h2) =
            map_option forget_out (andThen (inDeco s h1) (\<lambda>d h2.
               if d then return (nmul interval (Fin (real i))) h2
               else ndlLoop a s interval (i + 1) h2))"
      proof (rule andThen_forget[OF forget_inDeco])
        fix d h2
        assume d: "inDeco s h1 = Some (Ret d h2)"
        show "(if d then return (nmul interval (Fin (real i))) (forget h2)
               else ndlLoop a s interval (i + 1) (forget h2)) =
              map_option forget_out (if d then return (nmul interval (Fin (real i))) h2
               else ndlLoop a s interval (i + 1) h2)"
        proof (cases d)
          case True
          then show ?thesis by simp
        next
          case False
          then show ?thesis using "1.IH"[OF \<open>i < NDL_CUT_OFF_MINS\<close> r d False] by simp
        qed
      qed
    qed
    then show ?thesis using True
      by (subst ndlLoop.simps, subst (2) ndlLoop.simps) simp
  qed
qed

lemma forget_ndl: "ndl a (forget h) = map_option forget_out (ndl a h)"
  unfolding ndl_def
  apply (rule andThen_forget[OF forget_inDeco])
  apply (simp del: forget_return map_option_eq_Some)
  apply (intro conjI impI)
   apply simp
  apply (rule andThen_forget[OF forget_fork])
  apply (rule forget_ndlLoop)
  done

lemma forget_record_segment:
  "record_segment a sg (forget h) = map_option forget_out (record_segment a sg h)"
  by (cases sg) (simp_all add: forget_record_model forget_recordTravel forget_recordTravelWithRate)

lemma heap_of_forget_out [simp]: "heap_of (forget_out out) = forget (heap_of out)"
  by (cases out) simp_all

lemma result_forget_out [simp]: "result (forget_out out) = result out"
  by (cases out) simp_all

lemma forget_dive: "dive a sgs (forget h) = map_option forget (dive a sgs h)"
  by (induction sgs arbitrary: h) (simp_all add: forget_record_segment split: option.splits)

lemma forget_config_default: "forget_config BuhlmannConfig_default = BuhlmannConfig_default"
  by (simp add: forget_config_def BuhlmannConfig_default_def)

lemma forget_emptyHeap: "forget emptyHeap = emptyHeap"
proof -
  have "forget_comp compartment1 = compartment1"
    unfolding compartment1_def
    by (simp only: forget_Compartment_new[symmetric] forget_config_default)
  then show ?thesis
    by (simp add: forget_def emptyHeap_def blankModel_def forget_config_default)
qed

lemma ndl_after_forget: "ndl_after (forget_config cfg) sgs = ndl_after cfg sgs"
proof -
  have n: "BuhlmannModel_new (forget_config cfg) emptyHeap =
           map_option forget_out (BuhlmannModel_new cfg emptyHeap)"
    using forget_BuhlmannModel_new[of cfg emptyHeap] by (simp only: forget_emptyHeap)
  show ?thesis
  proof (cases "BuhlmannModel_new cfg emptyHeap")
    case None
    then show ?thesis using n by (simp add: ndl_after_def)
  next
    case (Some out)
    show ?thesis
    proof (cases out)
      case (Throw e h)
      then show ?thesis using n Some by (simp add: ndl_after_def)
    next
      case (Ret a h)
      have "(case dive a sgs (forget h) of None \<Rightarrow> None
             | Some h1 \<Rightarrow> map_option result (ndl a h1)) =
            (case dive a sgs h of None \<Rightarrow> None
             | Some h1 \<Rightarrow> map_option result (ndl a h1))"
        by (cases "dive a sgs h")
           (simp_all add: forget_dive forget_ndl option.map_comp comp_def)
      then show ?thesis using n Some Ret by (simp add: ndl_after_def)
    qed
  qed
qed

lemma BuhlmannModel_new_default:
  "BuhlmannModel_new BuhlmannConfig_default emptyHeap = Some (Ret 0 freshHeap)"
  by (simp add: BuhlmannModel_new_def validate_default return_def freshHeap_def newHeap_def
      construct_model_def Let_def emptyHeap_def)

section \<open>The claims\<close>

text \<open>
  C9. \<open>inDeco\<close> is decided by the configured ceiling type: with \<open>Actual\<close> it is
  \<open>ceiling() > 0\<close>, with \<open>Adaptive\<close> it is whether \<open>deco\<close> over the current gas alone
  yields more than one stage. An error or a divergence of the query it calls is its own.
\<close>

theorem inDeco_by_ceilingType:
  "(ceilingTypeValue (configuration (models h a)) = Actual \<longrightarrow>
      inDeco a h = andThen (ceiling_model a h) (\<lambda>c h1. return (ngt c Depth_zero) h1))
   \<and> (ceilingTypeValue (configuration (models h a)) = Adaptive \<longrightarrow>
      inDeco a h = andThen (deco a [gas (state (models h a))] h)
                     (\<lambda>runtime h1. return (1 < length (decoStages runtime)) h1))"
  by (simp add: inDeco_def diveState_def)

text \<open>
  A new model with the default configuration (\<open>Actual\<close>) has ceiling 0 and is not in
  deco; a new model configured \<open>Adaptive\<close> gets the empty schedule from \<open>deco\<close> and
  is not in deco.
\<close>

theorem inDeco_by_ceilingType_witness:
  "ceilingTypeValue (configuration (models freshHeap 0)) = Actual
   \<and> ceiling_model 0 freshHeap = Some (Ret (Fin 0) freshHeap)
   \<and> inDeco 0 freshHeap = Some (Ret False freshHeap)
   \<and> ceilingTypeValue (configuration (models adaptiveHeap 0)) = Adaptive
   \<and> (case deco 0 [Gas_air] adaptiveHeap of
        Some (Ret runtime h1) \<Rightarrow>
          decoStages runtime = [] \<and> inDeco 0 adaptiveHeap = Some (Ret False h1)
      | _ \<Rightarrow> False)"
proof -
  have a: "ceilingTypeValue (configuration (models freshHeap 0)) = Actual"
    by (simp add: freshHeap_model BuhlmannConfig_default_def)
  have c: "ceiling_model 0 freshHeap = Some (Ret (Fin 0) freshHeap)"
    using atRest_ceiling_model[OF atRest_freshHeap] .
  have i: "inDeco 0 freshHeap = Some (Ret False freshHeap)"
    using inDeco_by_ceilingType[of freshHeap 0] a c by (simp add: ngt_def Depth_zero_def return_def)
  have b: "ceilingTypeValue (configuration (models adaptiveHeap 0)) = Adaptive"
    by (simp add: adaptiveHeap_def newHeap_model)
  obtain h' where d: "deco 0 [Gas_air] adaptiveHeap =
      Some (Ret \<lparr>decoStages = [], tts = Time_zero, ttsSurface = Time_zero, runtime_sim = True\<rparr> h')"
    using deco_at_surface[of adaptiveHeap 0 "[Gas_air]"] own_newHeap newHeap_surface validate_adaptive
      Gas_air_equals
    by (auto simp: adaptiveHeap_def)
  have "inDeco 0 adaptiveHeap = Some (Ret False h')"
    using inDeco_by_ceilingType[of adaptiveHeap 0] b d
    by (simp add: adaptiveHeap_def newHeap_surface return_def)
  then show ?thesis using a c i b d by simp
qed

text \<open>
  C6. For every model whose references are allocated, a query that returns or throws
  leaves the model as it was: the model object with its dive state (depth, time, gas,
  \<open>gfLowDepth\<close>, the reference to \<open>OxTox\<close>), every compartment of the model and its
  \<open>OxTox\<close> are in the store after the query what they were before.
\<close>

theorem queries_leave_model_unchanged:
  assumes "own 0 h a"
  shows "(ceiling_model a h = Some out1 \<longrightarrow> unchanged a h (heap_of out1))
       \<and> (ndl a h = Some out2 \<longrightarrow> unchanged a h (heap_of out2))
       \<and> (deco a gasMixes h = Some out3 \<longrightarrow> unchanged a h (heap_of out3))
       \<and> (inDeco a h = Some out4 \<longrightarrow> unchanged a h (heap_of out4))"
  using assms ceiling_step ndl_step deco_step inDeco_step pres_unchanged by blast

text \<open>
  On a new model: the ceiling is 0, the no-decompression limit is the cut-off of 99
  minutes, the schedule is empty, the model is not in deco, and the model is unchanged
  by each of the four queries.
\<close>

theorem queries_leave_model_unchanged_witness:
  "own 0 freshHeap 0
   \<and> ceiling_model 0 freshHeap = Some (Ret (Fin 0) freshHeap)
   \<and> (case ndl 0 freshHeap of
        Some (Ret t h') \<Rightarrow> t = Time_fromMinutes (Fin 99) \<and> unchanged 0 freshHeap h'
      | _ \<Rightarrow> False)
   \<and> (case deco 0 [Gas_air] freshHeap of
        Some (Ret runtime h') \<Rightarrow> decoStages runtime = [] \<and> unchanged 0 freshHeap h'
      | _ \<Rightarrow> False)
   \<and> inDeco 0 freshHeap = Some (Ret False freshHeap)
   \<and> unchanged 0 freshHeap freshHeap"
proof -
  note o = own_freshHeap
  have c: "ceiling_model 0 freshHeap = Some (Ret (Fin 0) freshHeap)"
    using atRest_ceiling_model[OF atRest_freshHeap] .
  have i: "inDeco 0 freshHeap = Some (Ret False freshHeap)"
    using atRest_inDeco[OF atRest_freshHeap] .
  obtain h1 where n: "ndl 0 freshHeap = Some (Ret (Fin 5940) h1)"
    using ndl_atRest[OF o atRest_freshHeap] by (auto simp: freshHeap_model initialState_def)
  obtain h2 where d: "deco 0 [Gas_air] freshHeap =
      Some (Ret \<lparr>decoStages = [], tts = Time_zero, ttsSurface = Time_zero, runtime_sim = True\<rparr> h2)"
    using deco_at_surface[of freshHeap 0 "[Gas_air]"] own_newHeap newHeap_surface validate_default
      Gas_air_equals
    by (auto simp: freshHeap_def)
  note q = queries_leave_model_unchanged[OF o, of "Ret (Fin 0) freshHeap" "Ret (Fin 5940) h1"
      "[Gas_air]" "Ret \<lparr>decoStages = [], tts = Time_zero, ttsSurface = Time_zero, runtime_sim = True\<rparr> h2"
      "Ret False freshHeap"]
  show ?thesis using q o c i n d by (simp add: Time_fromMinutes_def)
qed


text \<open>
  C7. Whenever \<open>deco(gasMixes)\<close> returns a runtime, on a model whose references are
  allocated, the gas list is non-empty and contains the current gas of the model (the
  validation passed), and the gas of every stage of the runtime is a member of the gas
  list: ascents and stops carry the gas the simulation breathes, which stays in the
  list, and a gas switch carries a candidate that \<open>nextSwitchGas\<close> drew from the list.
\<close>

theorem deco_gas_list_closure:
  assumes "own 0 h a" "deco a gasMixes h = Some (Ret runtime h')"
  shows "gasMixes \<noteq> [] \<and> gas (state (models h a)) \<in> set gasMixes \<and>
         (\<forall>st \<in> set (decoStages runtime). stage_gas st \<in> set gasMixes)"
  using assms(2) unfolding deco_def clone_fork
proof (cases rule: andThenE)
  case (thrown e h1)
  then show ?thesis by simp
next
  case (returned s h0)
  have v: "validate (configuration (models h a)) = None"
    using fork_step[OF returned(1)] by simp
  have f: "own (nxt h) h0 s" "gas (state (models h0 s)) = gas (state (models h a))"
    using fork_returns[OF assms(1) v] returned(1) by auto
  let ?h1 = "h0\<lparr>models := (models h0)(s := (models h0 s)\<lparr>sim := True\<rparr>)\<rparr>"
  have o1: "own (nxt h) ?h1 s" using f(1) by (auto simp: own_def)
  have s1: "gas (state (models ?h1 s)) = gas (state (models h a))" using f(2) by simp
  have ne: "gasMixes \<noteq> []" using returned(2) by (auto simp: Let_def split: if_splits)
  have fd: "find (\<lambda>g. Gas_equals g (gas (state (models ?h1 s)))) gasMixes \<noteq> None"
    using returned(2) ne by (auto simp: Let_def split: if_splits)
  have cur: "gas (state (models ?h1 s)) \<in> set gasMixes" using find_Gas_equals[OF fd] .
  from returned(2) ne fd have
    "\<exists>f. andThen (decoLoop a s gasMixes [] ?h1) f = Some (Ret runtime h') \<and>
         (\<forall>x h1 r h2. f x h1 = Some (Ret r h2) \<longrightarrow> decoStages r = x)"
    by (intro exI conjI, simp add: Let_def) (auto simp: Let_def)
  then obtain f where f2: "andThen (decoLoop a s gasMixes [] ?h1) f = Some (Ret runtime h')"
    "\<And>x h1 r h2. f x h1 = Some (Ret r h2) \<Longrightarrow> decoStages r = x" by blast
  from f2(1) have "\<forall>st \<in> set (decoStages runtime). stage_gas st \<in> set gasMixes"
  proof (cases rule: andThenE)
    case (thrown e h2)
    then show ?thesis by simp
  next
    case (returned stages h2)
    have "\<forall>st \<in> set stages. stage_gas st \<in> set gasMixes"
      using decoLoop_gases_aux[OF returned(1)] o1 cur by fastforce
    then show ?thesis using f2(2)[OF returned(2)] by simp
  qed
  then show ?thesis using ne cur s1 by simp
qed

text \<open>
  A new model moved to 1 m in no time (\<open>recordTravel\<close> towards 1 m over 0 s) and asked for
  a schedule on air alone: the schedule is one ascent, on air.
\<close>

theorem deco_gas_list_closure_witness:
  "recordTravel 0 (Fin 1) (Fin 0) Gas_air freshHeap = Some (Ret () deepHeap)
   \<and> own 0 deepHeap 0
   \<and> (case deco 0 [Gas_air] deepHeap of
        Some (Ret runtime h') \<Rightarrow>
          map stage_gas (decoStages runtime) = [Gas_air]
          \<and> gas (state (models deepHeap 0)) \<in> set [Gas_air]
          \<and> (\<forall>st \<in> set (decoStages runtime). stage_gas st \<in> set [Gas_air])
      | _ \<Rightarrow> False)"
proof -
  obtain rt h' where d: "deco 0 [Gas_air] deepHeap = Some (Ret rt h')"
    "map stage_gas (decoStages rt) = [Gas_air]"
    using deco_one_ascent[OF deepHeap_facts] by auto
  note t = deco_gas_list_closure[OF deepHeap_facts(1) d(1)]
  show ?thesis using t d deepHeap_reached deepHeap_facts(1) by simp
qed

text \<open>
  C1. A \<open>record\<close> of a segment at the depth \<open>d\<close> m over \<open>t\<close> s (\<open>t / 60\<close> min) with the
  gas \<open>g\<close>, on a model whose references are allocated and whose compartments are
  distinct objects: every compartment with finite tissue pressures and finite non-zero
  half-times has afterwards, for nitrogen and for helium,
  \<open>P' = P + (P_insp - P) * (1 - 2 powr (- (t / 60) / ht))\<close> with
  \<open>P_insp = f * (P_surf / 1000 + d / 10 - 0.0627)\<close>, and its total pressure is the sum of
  the two. The second recalculation of the leading compartment, over no time, leaves
  these pressures as they are.
\<close>

theorem record_haldane:
  assumes "own 0 h a" "distinct (compartments (models h a))"
    and "record_model a (Fin d) (Fin t) g h = Some (Ret u h')"
    and "c \<in> set (compartments (models h a))"
    and "heIp (comps h c) = Fin ph" "n2Ip (comps h c) = Fin pn"
    and "heht (params (comps h c)) = Fin hth" "n2ht (params (comps h c)) = Fin htn"
    and "hth \<noteq> 0" "htn \<noteq> 0"
    and "hePp g = Fin fh" "n2Pp g = Fin fn"
    and "surfacePressureValue (configuration (models h a)) = Fin ps"
  shows "n2Ip (comps h' c) =
           Fin (pn + (fn * (ps / 1000 + d / 10 - 0.0627) - pn) * (1 - 2 powr (- (t / 60) / htn)))
       \<and> heIp (comps h' c) =
           Fin (ph + (fh * (ps / 1000 + d / 10 - 0.0627) - ph) * (1 - 2 powr (- (t / 60) / hth)))
       \<and> totalIp (comps h' c) = nadd (heIp (comps h' c)) (n2Ip (comps h' c))"
proof -
  let ?r = "\<lparr>rd_depth = Fin d, rd_time = Fin t, rd_gas = g\<rparr>"
  let ?rz = "\<lparr>rd_depth = Fin d, rd_time = Time_zero, rd_gas = g\<rparr>"
  let ?gf = "gfHigh (configuration (models h a))"
  let ?R1 = "Compartment_recalculate (comps h c) ?r ?gf (Fin ps)"
  let ?n = "pn + (fn * (ps / 1000 + d / 10 - 0.0627) - pn) * (1 - 2 powr (- (t / 60) / htn))"
  let ?e = "ph + (fh * (ps / 1000 + d / 10 - 0.0627) - ph) * (1 - 2 powr (- (t / 60) / hth))"
  have a1: "n2Ip ?R1 = Fin ?n" "heIp ?R1 = Fin ?e"
    "totalIp ?R1 = nadd (heIp ?R1) (n2Ip ?R1)" "params ?R1 = params (comps h c)"
    using Compartment_recalculate_haldane[where c = "comps h c"
        and r = "\<lparr>rd_depth = Fin d, rd_time = Fin t, rd_gas = g\<rparr>"
        and maxGf = "gfHigh (configuration (models h a))"
        and ps = ps and d = d and t = t and fh = fh and fn = fn, OF assms(5-10)] assms(11,12)
    by simp_all
  have a2: "n2Ip (Compartment_recalculate ?R1 ?rz mg (Fin ps)) = Fin ?n
          \<and> heIp (Compartment_recalculate ?R1 ?rz mg (Fin ps)) = Fin ?e
          \<and> totalIp (Compartment_recalculate ?R1 ?rz mg (Fin ps)) =
              nadd (heIp (Compartment_recalculate ?R1 ?rz mg (Fin ps)))
                   (n2Ip (Compartment_recalculate ?R1 ?rz mg (Fin ps)))" for mg
    using Compartment_recalculate_haldane[where c = "Compartment_recalculate (comps h c)
             \<lparr>rd_depth = Fin d, rd_time = Fin t, rd_gas = g\<rparr>
             (gfHigh (configuration (models h a))) (Fin ps)"
        and r = "\<lparr>rd_depth = Fin d, rd_time = Time_zero, rd_gas = g\<rparr>" and maxGf = mg
        and ps = ps and d = d and t = 0 and fh = fh and fn = fn
        and ph = "ph + (fh * (ps / 1000 + d / 10 - 0.0627) - ph) * (1 - 2 powr (- (t / 60) / hth))"
        and pn = "pn + (fn * (ps / 1000 + d / 10 - 0.0627) - pn) * (1 - 2 powr (- (t / 60) / htn))"
        and hth = hth and htn = htn]
      a1 assms(7-12) by (simp add: Time_zero_def)
  from record_model_comps[OF assms(1,2,3,4)] show ?thesis
    unfolding assms(13) using a1 a2 by auto
qed

text \<open>
  A new model, 4 minutes at 10 m on air: the first compartment (nitrogen half-time
  4 min) goes from 0.750737 bar of nitrogen half the way to the inspired 1.540737 bar.
\<close>

theorem record_haldane_witness:
  "own 0 freshHeap 0 \<and> distinct (compartments (models freshHeap 0))
   \<and> 2 \<in> set (compartments (models freshHeap 0))
   \<and> heIp (comps freshHeap 2) = Fin 0 \<and> n2Ip (comps freshHeap 2) = Fin 0.750737
   \<and> heht (params (comps freshHeap 2)) = Fin 1.51 \<and> n2ht (params (comps freshHeap 2)) = Fin 4
   \<and> hePp Gas_air = Fin 0 \<and> n2Pp Gas_air = Fin 0.79
   \<and> surfacePressureValue (configuration (models freshHeap 0)) = Fin 1013
   \<and> (case record_model 0 (Fin 10) (Fin 240) Gas_air freshHeap of
        Some (Ret u h') \<Rightarrow>
          n2Ip (comps h' 2) = Fin 1.145737 \<and> heIp (comps h' 2) = Fin 0
          \<and> totalIp (comps h' 2) = Fin 1.145737
      | _ \<Rightarrow> False)"
proof -
  have d: "distinct (compartments (models freshHeap 0))" "2 \<in> set (compartments (models freshHeap 0))"
    "surfacePressureValue (configuration (models freshHeap 0)) = Fin 1013"
    by (simp_all add: freshHeap_model BuhlmannConfig_default_def)
  have g: "hePp Gas_air = Fin 0" "n2Pp Gas_air = Fin 0.79" by (simp_all add: Gas_air_def)
  obtain h' where r: "record_model 0 (Fin 10) (Fin 240) Gas_air freshHeap = Some (Ret () h')"
    using record_with_total[OF ceiling_query_ok ceiling_returns_here ready_freshHeap,
        of "Fin 10" "Fin 240" Gas_air]
    unfolding record_model_def by (auto simp: Depth_zero_def ngt_def)
  have p: "(1.51::real) \<noteq> 0" "(4::real) \<noteq> 0" by simp_all
  note t = record_haldane[OF own_freshHeap d(1) r d(2) freshHeap_first p g d(3)]
  have "(- (240 / 60) / 4 :: real) = - 1" by simp
  then have e: "(2::real) powr (- (240 / 60) / 4) = 1 / 2"
    by (simp add: powr_neg_one)
  have n: "n2Ip (comps h' 2) = Fin 1.145737" "heIp (comps h' 2) = Fin 0"
    using t unfolding e by simp_all
  have "totalIp (comps h' 2) = nadd (heIp (comps h' 2)) (n2Ip (comps h' 2))" using t by blast
  then have s: "totalIp (comps h' 2) = Fin 1.145737" unfolding n by simp
  have "case record_model 0 (Fin 10) (Fin 240) Gas_air freshHeap of
        Some (Ret u h') \<Rightarrow>
          n2Ip (comps h' 2) = Fin 1.145737 \<and> heIp (comps h' 2) = Fin 0
          \<and> totalIp (comps h' 2) = Fin 1.145737
      | _ \<Rightarrow> False"
    unfolding r using n s by simp
  then show ?thesis using own_freshHeap d g freshHeap_first by blast
qed

text \<open>
  C2 (amended). \<open>gfLowDepth\<close> is computed by \<open>calcMaxSlopedGF\<close> when the ceiling is
  above 0 and no value is cached: it is then the deepest of the depths the compartments
  tolerate at \<open>gfLow\<close>; in every other case \<open>calcMaxSlopedGF\<close> leaves the field as it
  is, also when the model is not in deco. Once it holds a value, \<open>record\<close>,
  \<open>recordTravel\<close>, \<open>recordTravelWithRate\<close> and the four queries keep that value: no
  operation resets it.
\<close>

theorem gfLowDepth_cache:
  assumes "own 0 h a"
  shows "(calcMaxSlopedGF a d h = Some (Ret g h') \<and> ceiling_model a h = Some (Ret c h1) \<longrightarrow>
            gfLowDepth (state (models h' a)) =
              (if ngt c Depth_zero \<and> gfLowDepth (state (models h a)) = None
               then Some (gfLowDepthLoop h
                            (ndiv (surfacePressureValue (configuration (models h a))) (Fin 1000))
                            (ndiv (gfLow (configuration (models h a))) (Fin 100)) (Fin 0)
                            (compartments (models h a)))
               else gfLowDepth (state (models h a))))
       \<and> (gfLowDepth (state (models h a)) = Some v \<longrightarrow>
            (record_model a d1 t1 g1 h = Some out1 \<longrightarrow>
               gfLowDepth (state (models (heap_of out1) a)) = Some v)
          \<and> (recordTravel a d2 t2 g2 h = Some out2 \<longrightarrow>
               gfLowDepth (state (models (heap_of out2) a)) = Some v)
          \<and> (recordTravelWithRate a d3 rate g3 h = Some out3 \<longrightarrow>
               gfLowDepth (state (models (heap_of out3) a)) = Some v)
          \<and> (ceiling_model a h = Some out4 \<longrightarrow>
               gfLowDepth (state (models (heap_of out4) a)) = Some v)
          \<and> (ndl a h = Some out5 \<longrightarrow>
               gfLowDepth (state (models (heap_of out5) a)) = Some v)
          \<and> (deco a gasMixes h = Some out6 \<longrightarrow>
               gfLowDepth (state (models (heap_of out6) a)) = Some v)
          \<and> (inDeco a h = Some out7 \<longrightarrow>
               gfLowDepth (state (models (heap_of out7) a)) = Some v))"
proof -
  have 1: "gfLowDepth (state (models h' a)) =
              (if ngt c Depth_zero \<and> gfLowDepth (state (models h a)) = None
               then Some (gfLowDepthLoop h
                            (ndiv (surfacePressureValue (configuration (models h a))) (Fin 1000))
                            (ndiv (gfLow (configuration (models h a))) (Fin 100)) (Fin 0)
                            (compartments (models h a)))
               else gfLowDepth (state (models h a)))"
    if a: "calcMaxSlopedGF a d h = Some (Ret g h')" "ceiling_model a h = Some (Ret c h1)"
  proof -
    have p: "pres (nxt h) h h1" using ceiling_step[OF assms a(2)] by simp
    have m: "models h1 a = models h a" using own_model[OF assms p] .
    have "\<forall>x\<in>set (compartments (models h a)). comps h1 x = comps h x"
      using assms p by (auto simp: own_def pres_def)
    then have l: "gfLowDepthLoop h1 sp gf m0 (compartments (models h a)) =
                  gfLowDepthLoop h sp gf m0 (compartments (models h a))" for sp gf m0
      by (rule gfLowDepthLoop_cong)
    show ?thesis
      using calcMaxSlopedGF_with_cache[where cl = ceiling_model, OF a(2) a(1)[unfolded calcMaxSlopedGF_def]]
      unfolding m l .
  qed
  have 2: "gfLowDepth (state (models h2 a)) = Some v"
    if "gfLowDepth (state (models h a)) = Some v" "pres (nxt h) h h2" for h2
    using own_model[OF assms that(2)] that(1) by simp
  have 3: "gfLowDepth (state (models h2 a)) = Some v"
    if "gfLowDepth (state (models h a)) = Some v" "keeps a h h2" for h2
    using keeps_cache that by blast
  show ?thesis
  proof (intro conjI impI)
    assume "calcMaxSlopedGF a d h = Some (Ret g h') \<and> ceiling_model a h = Some (Ret c h1)"
    then show "gfLowDepth (state (models h' a)) =
              (if ngt c Depth_zero \<and> gfLowDepth (state (models h a)) = None
               then Some (gfLowDepthLoop h
                            (ndiv (surfacePressureValue (configuration (models h a))) (Fin 1000))
                            (ndiv (gfLow (configuration (models h a))) (Fin 100)) (Fin 0)
                            (compartments (models h a)))
               else gfLowDepth (state (models h a)))"
      using 1 by blast
  next
    assume "gfLowDepth (state (models h a)) = Some v" "record_model a d1 t1 g1 h = Some out1"
    then show "gfLowDepth (state (models (heap_of out1) a)) = Some v"
      using 3 record_model_step[OF assms] by blast
  next
    assume "gfLowDepth (state (models h a)) = Some v" "recordTravel a d2 t2 g2 h = Some out2"
    then show "gfLowDepth (state (models (heap_of out2) a)) = Some v"
      using 3 recordTravel_step[OF assms] by blast
  next
    assume "gfLowDepth (state (models h a)) = Some v" "recordTravelWithRate a d3 rate g3 h = Some out3"
    then show "gfLowDepth (state (models (heap_of out3) a)) = Some v"
      using 3 recordTravelWithRate_step[OF assms] by blast
  next
    assume "gfLowDepth (state (models h a)) = Some v" "ceiling_model a h = Some out4"
    then show "gfLowDepth (state (models (heap_of out4) a)) = Some v"
      using 2 ceiling_step[OF assms] by blast
  next
    assume "gfLowDepth (state (models h a)) = Some v" "ndl a h = Some out5"
    then show "gfLowDepth (state (models (heap_of out5) a)) = Some v"
      using 2 ndl_step[OF assms] by blast
  next
    assume "gfLowDepth (state (models h a)) = Some v" "deco a gasMixes h = Some out6"
    then show "gfLowDepth (state (models (heap_of out6) a)) = Some v"
      using 2 deco_step[OF assms] by blast
  next
    assume "gfLowDepth (state (models h a)) = Some v" "inDeco a h = Some out7"
    then show "gfLowDepth (state (models (heap_of out7) a)) = Some v"
      using 2 inDeco_step[OF assms] by blast
  qed
qed

text \<open>
  C2 as stated fails. A model with gradient factors 30/70 is saturated at 40 m on air
  (\<open>gfLowDepth\<close> gets a value), then saturated at the surface: the ceiling is 0, the
  model is not in deco, and \<open>gfLowDepth\<close> still holds the value of the first
  obligation.
\<close>

theorem gfLowDepth_counterexample:
  "(case record_model 0 (Fin 40) PInf Gas_air slopedHeap of
      Some (Ret u hA) \<Rightarrow>
        gfLowDepth (state (models hA 0)) \<noteq> None
        \<and> (case record_model 0 (Fin 0) PInf Gas_air hA of
             Some (Ret u' hB) \<Rightarrow>
               ceiling_model 0 hB = Some (Ret (Fin 0) hB)
               \<and> inDeco 0 hB = Some (Ret False hB)
               \<and> gfLowDepth (state (models hB 0)) = gfLowDepth (state (models hA 0))
           | _ \<Rightarrow> False)
    | _ \<Rightarrow> False)
   \<and> gfLowDepth (state (models slopedHeap 0)) = None"
proof -
  obtain hA where a: "record_model 0 (Fin 40) PInf Gas_air slopedHeap = Some (Ret () hA)"
    "gfLowDepth (state (models hA 0)) \<noteq> None"
    using sloped_deep[OF sloped_slopedHeap] by blast
  have sA: "sloped hA" using sloped_record[OF sloped_slopedHeap a(1)] by simp
  obtain hB where b: "record_model 0 (Fin 0) PInf Gas_air hA = Some (Ret () hB)"
    "ceiling_model 0 hB = Some (Ret (Fin 0) hB)" "inDeco 0 hB = Some (Ret False hB)"
    using sloped_surface[OF sA] by blast
  have "own 0 hA 0" using sA by (simp add: sloped_def ready_def)
  then have "keeps 0 hA hB" using record_model_step b(1) by fastforce
  then have k: "gfLowDepth (state (models hB 0)) = gfLowDepth (state (models hA 0))"
    using a(2) by (auto simp: keeps_def)
  have n: "gfLowDepth (state (models slopedHeap 0)) = None"
    by (simp add: slopedHeap_def newHeap_model initialState_def)
  show ?thesis unfolding a(1) using a(2) b k n by simp
qed



text \<open>
  A model with gradient factors 30/70. In the store as it is within \<open>record\<close> of 40 m
  on air for an unbounded time, once the compartments are recalculated, the ceiling is
  above 0, nothing is cached, and \<open>calcMaxSlopedGF\<close> caches the depth. After that
  \<open>record\<close> the cached value survives a record at the surface, both travels, and the
  four queries.
\<close>

theorem gfLowDepth_cache_witness:
  "own 0 loadedHeap 0 \<and> gfLowDepth (state (models loadedHeap 0)) = None
   \<and> (case ceiling_model 0 loadedHeap of
        Some (Ret c h1) \<Rightarrow>
          ngt c Depth_zero
          \<and> (case calcMaxSlopedGF 0 (Fin 40) loadedHeap of
               Some (Ret g h') \<Rightarrow>
                 gfLowDepth (state (models h' 0)) =
                   Some (gfLowDepthLoop loadedHeap (ndiv (Fin 1013) (Fin 1000))
                           (ndiv (Fin 30) (Fin 100)) (Fin 0) [2..<18])
             | _ \<Rightarrow> False)
      | _ \<Rightarrow> False)
   \<and> (case record_model 0 (Fin 40) PInf Gas_air slopedHeap of
        Some (Ret u hA) \<Rightarrow>
          own 0 hA 0
          \<and> (case gfLowDepth (state (models hA 0)) of
               Some v \<Rightarrow>
                 (case record_model 0 (Fin 0) PInf Gas_air hA of
                    Some out \<Rightarrow> gfLowDepth (state (models (heap_of out) 0)) = Some v
                  | None \<Rightarrow> False)
                 \<and> (case recordTravel 0 (Fin 40) (Fin 0) Gas_air hA of
                      Some out \<Rightarrow> gfLowDepth (state (models (heap_of out) 0)) = Some v
                    | None \<Rightarrow> False)
                 \<and> (case recordTravelWithRate 0 (Fin 40) (Fin 10) Gas_air hA of
                      Some out \<Rightarrow> gfLowDepth (state (models (heap_of out) 0)) = Some v
                    | None \<Rightarrow> False)
                 \<and> (case ceiling_model 0 hA of
                      Some out \<Rightarrow> gfLowDepth (state (models (heap_of out) 0)) = Some v
                    | None \<Rightarrow> False)
                 \<and> (case ndl 0 hA of
                      Some out \<Rightarrow> gfLowDepth (state (models (heap_of out) 0)) = Some v
                    | None \<Rightarrow> False)
                 \<and> (case deco 0 [] hA of
                      Some out \<Rightarrow> gfLowDepth (state (models (heap_of out) 0)) = Some v
                    | None \<Rightarrow> False)
                 \<and> (case inDeco 0 hA of
                      Some out \<Rightarrow> gfLowDepth (state (models (heap_of out) 0)) = Some v
                    | None \<Rightarrow> False)
             | None \<Rightarrow> False)
      | _ \<Rightarrow> False)"
proof -
  note lf = loadedHeap_facts
  have ol: "own 0 loadedHeap 0" using ready_own[OF lf(1)] .
  have nl: "gfLowDepth (state (models loadedHeap 0)) = None"
    unfolding lf(2) by (simp add: slopedHeap_def newHeap_model initialState_def)
  have ml: "configuration (models loadedHeap 0) = gf3070" "compartments (models loadedHeap 0) = [2..<18]"
    unfolding lf(2) by (simp_all add: slopedHeap_def newHeap_model)
  obtain c where c: "ceiling_model 0 loadedHeap = Some (Ret c loadedHeap)" "ngt c Depth_zero"
    using lf(3) by blast
  obtain mg h' where g: "calcMaxSlopedGF 0 (Fin 40) loadedHeap = Some (Ret mg h')"
    using calcMaxSlopedGF_with_in[where cl = ceiling_model and b = 0, OF c]
    unfolding calcMaxSlopedGF_def by blast
  have 1: "gfLowDepth (state (models h' 0)) =
             Some (gfLowDepthLoop loadedHeap (ndiv (Fin 1013) (Fin 1000))
                           (ndiv (Fin 30) (Fin 100)) (Fin 0) [2..<18])"
  proof -
    have sp: "surfacePressureValue gf3070 = Fin 1013" "gfLow gf3070 = Fin 30"
      by (simp_all add: gf3070_def BuhlmannConfig_default_def)
    have "gfLowDepth (state (models h' 0)) =
              (if ngt c Depth_zero \<and> gfLowDepth (state (models loadedHeap 0)) = None
               then Some (gfLowDepthLoop loadedHeap
                            (ndiv (surfacePressureValue (configuration (models loadedHeap 0))) (Fin 1000))
                            (ndiv (gfLow (configuration (models loadedHeap 0))) (Fin 100)) (Fin 0)
                            (compartments (models loadedHeap 0)))
               else gfLowDepth (state (models loadedHeap 0)))"
      using gfLowDepth_cache[OF ol, where d = "Fin 40" and g = mg and h' = h' and c = c
          and ?h1.0 = loadedHeap] g c(1) by blast
    then show ?thesis unfolding ml sp using c(2) nl by (simp only: simp_thms if_True)
  qed
  obtain hA where a: "record_model 0 (Fin 40) PInf Gas_air slopedHeap = Some (Ret () hA)"
    "gfLowDepth (state (models hA 0)) \<noteq> None"
    using sloped_deep[OF sloped_slopedHeap] by blast
  then obtain v where v: "gfLowDepth (state (models hA 0)) = Some v" by blast
  have sA: "sloped hA" using sloped_record[OF sloped_slopedHeap a(1)] by simp
  then have rA: "ready 0 hA 0" and cA: "configuration (models hA 0) = gf3070"
    by (simp_all add: sloped_def)
  have oA: "own 0 hA 0" using ready_own[OF rA] .
  have dA: "depth (state (models hA 0)) = Fin 40"
    using record_model_effect[OF ready_own[OF sloped_slopedHeap[unfolded sloped_def, THEN conjunct1]] a(1)]
    by simp
  obtain hB where o1: "record_model 0 (Fin 0) PInf Gas_air hA = Some (Ret () hB)"
    using sloped_surface[OF sA] by blast
  obtain h2 where o2: "recordTravel 0 (Fin 40) (Fin 0) Gas_air hA = Some (Ret () h2)"
    using recordTravel_with_total[OF ceiling_query_ok ceiling_returns_here rA, of "Fin 40" "Fin 0" Gas_air]
    unfolding recordTravel_def by (auto simp: Depth_zero_def ngt_def)
  obtain h3 where o3: "recordTravelWithRate 0 (Fin 40) (Fin 10) Gas_air hA = Some (Ret () h3)"
    using recordTravelWithRate_with_total[OF ceiling_query_ok ceiling_returns_here rA,
        of "Fin 40" "Fin 10" Gas_air]
    unfolding recordTravelWithRate_def dA by (auto simp: Depth_zero_def ngt_def Time_fromMinutes_def)
  obtain c4 where o4: "ceiling_model 0 hA = Some (Ret c4 hA)"
    using ceiling_returns_here rA unfolding returns_here_def by blast
  have act: "ceilingTypeValue (configuration (models hA 0)) = Actual"
    unfolding cA by (simp add: gf3070_def BuhlmannConfig_default_def)
  obtain out5 where o5: "ndl 0 hA = Some out5"
    using ndl_some[OF rA act] cA validate_gf3070 by auto
  obtain h6 where f: "fork 0 hA = Some (Ret (nxt hA) h6)"
    using fork_returns[OF oA] cA validate_gf3070 by auto
  have o6: "deco 0 [] hA =
      Some (Throw EmptyGasList (h6\<lparr>models := (models h6)(nxt hA := (models h6 (nxt hA))\<lparr>sim := True\<rparr>)\<rparr>))"
    unfolding deco_def clone_fork using f by (simp add: Let_def)
  obtain d7 where o7: "inDeco 0 hA = Some (Ret d7 hA)" using inDeco_actual[OF rA act] by blast
  note t = gfLowDepth_cache[OF oA, where v = v and ?d1.0 = "Fin 0" and ?t1.0 = PInf and ?g1.0 = Gas_air
      and ?out1.0 = "Ret () hB"
      and ?d2.0 = "Fin 40" and ?t2.0 = "Fin 0" and ?g2.0 = Gas_air and ?out2.0 = "Ret () h2"
      and ?d3.0 = "Fin 40" and rate = "Fin 10" and ?g3.0 = Gas_air and ?out3.0 = "Ret () h3"
      and ?out4.0 = "Ret c4 hA" and ?out5.0 = out5 and gasMixes = "[]"
      and ?out6.0 = "Throw EmptyGasList (h6\<lparr>models := (models h6)(nxt hA := (models h6 (nxt hA))\<lparr>sim := True\<rparr>)\<rparr>)"
      and ?out7.0 = "Ret d7 hA"]
  note k = t[THEN conjunct2, THEN mp, OF v]
  note k1 = k[THEN conjunct1, THEN mp, OF o1]
  note k2 = k[THEN conjunct2, THEN conjunct1, THEN mp, OF o2]
  note k3 = k[THEN conjunct2, THEN conjunct2, THEN conjunct1, THEN mp, OF o3]
  note k4 = k[THEN conjunct2, THEN conjunct2, THEN conjunct2, THEN conjunct1, THEN mp, OF o4]
  note k5 = k[THEN conjunct2, THEN conjunct2, THEN conjunct2, THEN conjunct2, THEN conjunct1,
      THEN mp, OF o5]
  note k6 = k[THEN conjunct2, THEN conjunct2, THEN conjunct2, THEN conjunct2, THEN conjunct2,
      THEN conjunct1, THEN mp, OF o6]
  note k7 = k[THEN conjunct2, THEN conjunct2, THEN conjunct2, THEN conjunct2, THEN conjunct2,
      THEN conjunct2, THEN mp, OF o7]
  note 2 = k1 k2 k3 k4 k5 k6 k7
  have 3: "heap_of (Ret () hB) = hB" "heap_of (Ret () h2) = h2" "heap_of (Ret () h3) = h3"
    "heap_of (Ret c4 hA) = hA" "heap_of (Ret d7 hA) = hA" by simp_all
  show ?thesis
    using ol nl c(2) 1 oA 2
    by (simp only: c(1) g a(1) v o1 o2 o3 o4 o5 o6 o7 option.case outcome.case simp_thms)
qed

text \<open>
  C3 does not hold of the code. \<open>weightedZhlParams\<close> divides by \<open>P_He + P_N2\<close> with no
  guard. For every compartment with \<open>P_He + P_N2 = 0\<close> the weighted a and b are no
  finite number (NaN or an infinity), so they are not the nitrogen coefficients, and
  the M-value and the tolerable ambient pressure computed from them are NaN, whatever
  the depth, the surface pressure and the gradient factor.
\<close>

theorem zero_pressure_not_guarded:
  assumes "nadd (heIp c) (n2Ip c) = Fin 0"
  shows "(\<forall>x. fst (snd (weightedZhlParams c (heIp c) (n2Ip c))) \<noteq> Fin x)
       \<and> (\<forall>x. snd (snd (weightedZhlParams c (heIp c) (n2Ip c))) \<noteq> Fin x)
       \<and> mValue c d sp g = NaN
       \<and> minTolerableAmbPressureCalc c g = NaN"
proof -
  let ?a = "weightedParam (hea (params c)) (heIp c) (n2a (params c)) (n2Ip c)"
  let ?b = "weightedParam (heb (params c)) (heIp c) (n2b (params c)) (n2Ip c)"
  have a: "?a \<noteq> Fin x" for x
    unfolding weightedParam_def assms by (rule ndiv_by_zero)
  have b: "?b \<noteq> Fin x" for x
    unfolding weightedParam_def assms by (rule ndiv_by_zero)
  have n: "ndiv ?b (nadd (nsub (ndiv g (Fin 100)) (nmul (ndiv g (Fin 100)) ?b)) ?b) = NaN"
    using adjusted_b_NaN b by blast
  have m: "mValue c d sp g = NaN"
    unfolding mValue_def maxGfAdjustedZhlParams_def weightedZhlParams_def Let_def
    by (simp add: n)
  have t: "minTolerableAmbPressureCalc c g = NaN"
    unfolding minTolerableAmbPressureCalc_def maxGfAdjustedZhlParams_def weightedZhlParams_def Let_def
    by (simp add: n)
  show ?thesis using a b m t by (simp add: weightedZhlParams_def)
qed

text \<open>
  A new model that breathes pure oxygen at the surface for an unbounded time: the
  nitrogen and helium pressures of its compartments are 0, the tolerable ambient
  pressure of the first compartment is NaN and not computed from the nitrogen
  coefficients 1.2599 and 0.505, and \<open>ceiling\<close> returns NaN.
\<close>

theorem zero_pressure_not_guarded_witness:
  "Gas_new (Fin 1) (Fin 0) = Inr oxygen
   \<and> (case record_model 0 (Fin 0) PInf oxygen freshHeap of
        Some (Ret u h') \<Rightarrow>
          nadd (heIp (comps h' 2)) (n2Ip (comps h' 2)) = Fin 0
          \<and> mValue (comps h' 2) (Fin 0) (Fin 1013) (Fin 100) = NaN
          \<and> minTolerableAmbPressureCalc (comps h' 2) (Fin 100) = NaN
          \<and> minTolerableAmbPressure (comps h' 2) = NaN
          \<and> ceiling_model 0 h' = Some (Ret NaN h')
      | _ \<Rightarrow> False)
   \<and> n2a (params (comps freshHeap 2)) = Fin 1.2599 \<and> n2b (params (comps freshHeap 2)) = Fin 0.505"
proof -
  have di: "distinct (compartments (models freshHeap 0))" "2 \<in> set (compartments (models freshHeap 0))"
    by (simp_all add: freshHeap_model)
  obtain h' where h: "record_model 0 (Fin 0) PInf oxygen freshHeap = Some (Ret () h')"
    "ceiling_model 0 h' = Some (Ret NaN h')"
    "\<forall>c\<in>set (compartments (models freshHeap 0)).
        heIp (comps h' c) = Fin 0 \<and> n2Ip (comps h' c) = Fin 0 \<and> minTolerableAmbPressure (comps h' c) = NaN"
    using atRest_oxygen[OF ready_freshHeap atRest_freshHeap di(1)] by blast
  have z: "heIp (comps h' 2) = Fin 0" "n2Ip (comps h' 2) = Fin 0" "minTolerableAmbPressure (comps h' 2) = NaN"
    using h(3) di(2) by blast+
  have s: "nadd (heIp (comps h' 2)) (n2Ip (comps h' 2)) = Fin 0" unfolding z by simp
  note t = zero_pressure_not_guarded[OF s, of "Fin 0" "Fin 1013" "Fin 100"]
  have p: "n2a (params (comps freshHeap 2)) = Fin 1.2599" "n2b (params (comps freshHeap 2)) = Fin 0.505"
    using freshHeap_comps[of 0]
    by (simp_all add: ZHL_16C_N2_16A_HE_VALUES_def zhl_def Compartment_new_def Let_def)
  have "case record_model 0 (Fin 0) PInf oxygen freshHeap of
        Some (Ret u h') \<Rightarrow>
          nadd (heIp (comps h' 2)) (n2Ip (comps h' 2)) = Fin 0
          \<and> mValue (comps h' 2) (Fin 0) (Fin 1013) (Fin 100) = NaN
          \<and> minTolerableAmbPressureCalc (comps h' 2) (Fin 100) = NaN
          \<and> minTolerableAmbPressure (comps h' 2) = NaN
          \<and> ceiling_model 0 h' = Some (Ret NaN h')
      | _ \<Rightarrow> False"
    using s t z(3) h(2) by (simp only: h(1) option.case outcome.case simp_thms)
  then show ?thesis using oxygen_constructed p by blast
qed



text \<open>
  C4. The loop of the adaptive ceiling tests its counter after the increment, with
  \<open>iterations > 50\<close>. A run of the loop that returns has made at most 51 ascents, not at
  most 50: when 50 ascents have been made and the fork is still deeper than the surface
  and than the ceiling, the loop makes a 51st ascent and computes the ceiling once more
  before it stops.
\<close>

theorem adaptive_cap_is_51:
  "(it \<le> 50 \<and> adaptiveLoop cfg s g it c h = Some (Ret r h')
      \<longrightarrow> it \<le> snd r \<and> snd r \<le> 51)
   \<and> (\<not> nle (depth (state (models h s))) (Fin 0) \<and> \<not> nle (depth (state (models h s))) c
        \<and> recordTravelWithRate_with ceilingSim s c (decoAscentRateValue cfg) g h = Some (Ret () ha)
        \<and> ceilingSim s ha = Some (Ret c' hb)
      \<longrightarrow> adaptiveLoop cfg s g 50 c h = Some (Ret (c', 51) hb))"
proof (intro conjI impI)
  assume "it \<le> 50 \<and> adaptiveLoop cfg s g it c h = Some (Ret r h')"
  then show "it \<le> snd r" "snd r \<le> 51" using adaptiveLoop_count by blast+
next
  assume a: "\<not> nle (depth (state (models h s))) (Fin 0) \<and> \<not> nle (depth (state (models h s))) c
        \<and> recordTravelWithRate_with ceilingSim s c (decoAscentRateValue cfg) g h = Some (Ret () ha)
        \<and> ceilingSim s ha = Some (Ret c' hb)"
  show "adaptiveLoop cfg s g 50 c h = Some (Ret (c', 51) hb)"
    by (subst adaptiveLoop.simps) (simp add: a Let_def return_def)
qed

text \<open>
  A model with the adaptive ceiling on which the depth NaN was recorded (which
  \<open>validateDepth\<close> lets through): the tests of the loop are false in every round, and
  \<open>ceiling\<close> makes 51 ascents of the fork. The same store entered with the counter at
  50 makes one more ascent.
\<close>

theorem adaptive_cap_is_51_witness:
  "(case record_model 0 NaN (Fin 0) Gas_air adaptiveHeap of
      Some (Ret u h) \<Rightarrow>
        ceilingTypeValue (configuration (models h 0)) = Adaptive \<and> \<not> sim (models h 0)
        \<and> (case fork 0 h of
             Some (Ret s h1) \<Rightarrow>
               (case ceilingSim s h1 of
                  Some (Ret c h2) \<Rightarrow>
                    (case adaptiveLoop (configuration (models h 0)) s (gas (state (models h1 s))) 0 c h2 of
                       Some (Ret r h3) \<Rightarrow> snd r = 51
                     | _ \<Rightarrow> False)
                    \<and> (case adaptiveLoop (configuration (models h 0)) s (gas (state (models h1 s))) 50 c h2 of
                         Some (Ret r h3) \<Rightarrow> snd r = 51
                       | _ \<Rightarrow> False)
                | _ \<Rightarrow> False)
           | _ \<Rightarrow> False)
    | _ \<Rightarrow> False)"
proof -
  let ?cfg = "BuhlmannConfig_default\<lparr>ceilingTypeValue := Adaptive\<rparr>"
  obtain h where h: "record_model 0 NaN (Fin 0) Gas_air adaptiveHeap = Some (Ret () h)" "own 0 h 0"
    "depth (state (models h 0)) = NaN" "compartments (models h 0) = [2..<18]"
    "configuration (models h 0) = ?cfg" "\<not> sim (models h 0)"
    "\<forall>c\<in>set [2..<18]. minTolerableAmbPressure (comps h c) = NaN"
    using record_adrift by blast
  have v: "validate (configuration (models h 0)) = None" unfolding h(5) by (rule validate_adaptive)
  obtain h1 where f: "fork 0 h = Some (Ret (nxt h) h1)" "sim (models h1 (nxt h))"
    "depth (state (models h1 (nxt h))) = depth (state (models h 0))"
    "map (comps h1) (compartments (models h1 (nxt h))) = map (comps h) (compartments (models h 0))"
    using fork_returns[OF h(2) v] by auto
  have len: "length (compartments (models h1 (nxt h))) = length (compartments (models h 0))"
    using f(4) map_eq_imp_length_eq by blast
  have ne: "compartments (models h1 (nxt h)) \<noteq> []" using len h(4) by auto
  have "\<forall>x\<in>set (map (comps h) (compartments (models h 0))). minTolerableAmbPressure x = NaN"
    using h(7) unfolding h(4) by simp
  then have "\<forall>x\<in>set (map (comps h1) (compartments (models h1 (nxt h)))). minTolerableAmbPressure x = NaN"
    unfolding f(4) .
  then have a: "adrift h1 (nxt h)" using f(2,3) h(3) ne by (simp add: adrift_def)
  have d: "depth (state (models h1 (nxt h))) = NaN" using a by (simp add: adrift_def)
  have c: "ceilingSim (nxt h) h1 = Some (Ret NaN h1)" using adrift_ceilingSim[OF a] .
  let ?g = "gas (state (models h1 (nxt h)))"
  let ?h2 = "set_state (nxt h) (\<lambda>st. st\<lparr>depth := NaN\<rparr>) (set_state (nxt h) (\<lambda>st. st\<lparr>gas := ?g\<rparr>) h1)"
  obtain h3 where l: "adaptiveLoop (configuration (models h 0)) (nxt h) ?g 0 NaN h1
                       = Some (Ret (NaN, 51) h3)"
    using adrift_loop[OF a, of 0] by auto
  have n: "\<not> nle (depth (state (models h1 (nxt h)))) (Fin 0)"
    "\<not> nle (depth (state (models h1 (nxt h)))) NaN"
    unfolding d by simp_all
  note t = adaptive_cap_is_51[where cfg = "configuration (models h 0)" and s = "nxt h" and g = ?g
      and c = NaN and h = h1 and ha = ?h2 and c' = NaN and hb = ?h2 and it = 0
      and r = "(NaN, 51)" and h' = h3]
  have l50: "adaptiveLoop (configuration (models h 0)) (nxt h) ?g 50 NaN h1 = Some (Ret (NaN, 51) ?h2)"
    using t[THEN conjunct2] n adrift_travel[OF a] adrift_ceilingSim[OF adrift_kept[OF a]] by simp
  have "(0::nat) \<le> snd (NaN, 51::nat) \<and> snd (NaN, 51::nat) \<le> 51"
    using t[THEN conjunct1] l by simp
  have ct: "ceilingTypeValue (configuration (models h 0)) = Adaptive" unfolding h(5) by simp
  show ?thesis
    using ct h(6)
    by (simp only: h(1) f(1) c l l50 option.case outcome.case simp_thms snd_conv)
qed

text \<open>
  C10. The configured \<open>ndlType\<close> has no influence on \<open>ndl\<close>: two models constructed
  with configurations that differ only in that field, on which the same segments were
  recorded, give the same result of \<open>ndl\<close> (the same time, the same exception, or no
  return for both).
\<close>

theorem ndl_ignores_ndlType:
  "ndl_after (cfg\<lparr>ndlTypeValue := t\<rparr>) sgs = ndl_after cfg sgs"
proof -
  have "forget_config (cfg\<lparr>ndlTypeValue := t\<rparr>) = forget_config cfg"
    by (simp add: forget_config_def)
  then show ?thesis
    using ndl_after_forget[of "cfg\<lparr>ndlTypeValue := t\<rparr>" sgs] ndl_after_forget[of cfg sgs]
    by simp
qed

text \<open>
  A model with the default configuration saturated at 40 m on air has the limit 0,
  and so has the model whose \<open>ndlType\<close> is \<open>ByCeiling\<close>.
\<close>

theorem ndl_ignores_ndlType_witness:
  "ndl_after BuhlmannConfig_default [Record (Fin 40) PInf Gas_air] = Some (Inr Time_zero)
   \<and> ndl_after (BuhlmannConfig_default\<lparr>ndlTypeValue := NDL_ByCeiling\<rparr>)
         [Record (Fin 40) PInf Gas_air] = Some (Inr Time_zero)"
proof -
  have di: "distinct (compartments (models freshHeap 0))" by (simp add: freshHeap_model)
  obtain hD where d: "record_model 0 (Fin 40) PInf Gas_air freshHeap = Some (Ret () hD)"
    "inDeco 0 hD = Some (Ret True hD)"
    using atRest_deep[OF ready_freshHeap atRest_freshHeap di] by blast
  have n: "ndl 0 hD = Some (Ret Time_zero hD)"
    by (simp add: ndl_def d(2) andThen_def return_def)
  have 1: "ndl_after BuhlmannConfig_default [Record (Fin 40) PInf Gas_air] = Some (Inr Time_zero)"
    by (simp add: ndl_after_def BuhlmannModel_new_default d(1) n)
  show ?thesis
    using 1 ndl_ignores_ndlType[where cfg = BuhlmannConfig_default and t = NDL_ByCeiling
        and sgs = "[Record (Fin 40) PInf Gas_air]"]
    by simp
qed

end
